theory Spec2Isabelle
  imports Main "HOL-Library.Char_ord" "HOL-Library.List_Lexorder"
begin

section \<open>JavaScript values\<close>

text \<open>
  The values the adapter inspects. Primitives carry their payload; objects, arrays and user
  functions are references (two references are the same value iff they are equal). The
  closures the adapter itself creates are constructors of their own:
  \<^item> \<open>Adapted target context\<close> is the function returned by \<open>doPromiseify\<close> for a callable
    target, identified by what it captures;
  \<^item> \<open>OnSuccessPromiseified k\<close> and \<open>OnErrorPromiseified k\<close> are the two handlers injected by
    the \<open>k\<close>-th invocation of an adapted function;
  \<^item> \<open>TrueRedirector\<close> and \<open>FalseRedirector\<close> are the default redirectors the injected handlers
    install, \<open>NodeStyleRedirector\<close> is \<open>error => !error\<close>.
  Numbers are integers (no NaN), and only function values have \<open>Function.prototype\<close> on their
  prototype chain.
\<close>

datatype jsval =
    Undefined
  | Null
  | Bool bool
  | Num int
  | Str string
  | Obj nat
  | Arr nat
  | Fn nat
  | Adapted jsval jsval
  | OnSuccessPromiseified nat
  | OnErrorPromiseified nat
  | TrueRedirector
  | FalseRedirector
  | NodeStyleRedirector

fun getType :: "jsval \<Rightarrow> string" where
  "getType Undefined = ''undefined''"
| "getType Null = ''object''"
| "getType (Bool b) = ''boolean''"
| "getType (Num n) = ''number''"
| "getType (Str s) = ''string''"
| "getType (Obj r) = ''object''"
| "getType (Arr r) = ''object''"
| "getType (Fn f) = ''function''"
| "getType (Adapted t c) = ''function''"
| "getType (OnSuccessPromiseified k) = ''function''"
| "getType (OnErrorPromiseified k) = ''function''"
| "getType TrueRedirector = ''function''"
| "getType FalseRedirector = ''function''"
| "getType NodeStyleRedirector = ''function''"

text \<open>\<open>candidate instanceof Function\<close>.\<close>

fun instanceofFunction :: "jsval \<Rightarrow> bool" where
  "instanceofFunction (Fn f) = True"
| "instanceofFunction (Adapted t c) = True"
| "instanceofFunction (OnSuccessPromiseified k) = True"
| "instanceofFunction (OnErrorPromiseified k) = True"
| "instanceofFunction TrueRedirector = True"
| "instanceofFunction FalseRedirector = True"
| "instanceofFunction NodeStyleRedirector = True"
| "instanceofFunction v = False"

definition isFunction :: "jsval \<Rightarrow> bool" where
  "isFunction candidate \<longleftrightarrow> ''function'' = getType candidate \<or> instanceofFunction candidate"

definition isObject :: "jsval \<Rightarrow> bool" where
  "isObject candidate \<longleftrightarrow> ''object'' = getType candidate"

text \<open>The conversion to boolean that \<open>!!\<close>, \<open>||\<close> and the conditional operator apply.\<close>

fun truthy :: "jsval \<Rightarrow> bool" where
  "truthy Undefined = False"
| "truthy Null = False"
| "truthy (Bool b) = b"
| "truthy (Num n) = (n \<noteq> 0)"
| "truthy (Str s) = (s \<noteq> [])"
| "truthy v = True"

section \<open>Separating the arguments from the callbacks\<close>

text \<open>\<open>arguments[i]\<close>: an index outside the list reads \<open>undefined\<close>.\<close>

definition arg :: "jsval list \<Rightarrow> int \<Rightarrow> jsval" where
  "arg A i = (if 0 \<le> i \<and> i < int (length A) then A ! nat i else Undefined)"

text \<open>\<open>xs.slice(0, e)\<close>: a negative end counts from the end of the array.\<close>

definition slice0 :: "jsval list \<Rightarrow> int \<Rightarrow> jsval list" where
  "slice0 xs e =
     (let n = int (length xs);
          k = (if e < 0 then max (n + e) 0 else min e n)
      in take (nat k) xs)"

record handlers =
  successHandler :: jsval
  failureHandler :: jsval
  executionArguments :: "jsval list"

text \<open>
  The head of the adapted function, up to the construction of the promise. The test for an
  empty argument list is a statement of its own (its body is empty and it has no \<open>else\<close>),
  so an empty list goes on to the second conditional and takes its \<open>else\<close> branch.
\<close>

definition separateArguments :: "jsval list \<Rightarrow> handlers" where
  "separateArguments A =
     (let n = int (length A);
          h0 = \<lparr>successHandler = Undefined, failureHandler = Undefined,
                executionArguments = A\<rparr>;
          h1 = (if 0 = n then h0 else h0)
      in if 1 = n then
           (if isFunction (arg A 0)
            then h1\<lparr>successHandler := arg A 0, executionArguments := []\<rparr>
            else h1)
         else
           (if isFunction (arg A (n - 1)) \<and> isFunction (arg A (n - 2))
            then h1\<lparr>successHandler := arg A (n - 2), failureHandler := arg A (n - 1),
                    executionArguments :=
                      slice0 (executionArguments h1) (int (length (executionArguments h1)) - 2)\<rparr>
            else if isFunction (arg A (n - 1))
            then h1\<lparr>successHandler := arg A (n - 1),
                    executionArguments :=
                      slice0 (executionArguments h1) (int (length (executionArguments h1)) - 1)\<rparr>
            else h1))"

section \<open>Promises, the shared options record and the call log\<close>

text \<open>
  What a function throws: a value, or the \<open>TypeError\<close> the platform raises. A promise is
  pending, fulfilled with the result arguments, or rejected with the result arguments or
  with what the executor threw. \<open>resolve\<close> and \<open>reject\<close> are the two settlement functions the
  platform hands to the executor: they act on a pending promise only.
\<close>

datatype exn = Value jsval | TypeError

datatype reason = Args "jsval list" | Thrown exn

datatype promise = Pending | Fulfilled "jsval list" | Rejected reason

fun resolve :: "jsval list \<Rightarrow> promise \<Rightarrow> promise" where
  "resolve R Pending = Fulfilled R"
| "resolve R p = p"

fun reject :: "reason \<Rightarrow> promise \<Rightarrow> promise" where
  "reject e Pending = Rejected e"
| "reject e p = p"

text \<open>
  The log of what the adapter does, in order: \<open>target.apply(context, executionArguments)\<close> of
  invocation \<open>k\<close>; the \<open>fn.apply(context || {}, args)\<close> of \<open>execute\<close> (\<open>None\<close> is the fresh empty
  object); and the calls of the settlement functions of the promise of invocation \<open>k\<close>,
  \<open>resolve(executionArgs)\<close> and \<open>reject(...)\<close>, the latter made by \<open>executeFailure\<close> or by the
  promise constructor when the executor throws.
\<close>

datatype call =
    TargetApply nat jsval jsval "jsval list"
  | ExecuteApply jsval "jsval option" "jsval list"
  | Resolve nat "jsval list"
  | Reject nat reason

text \<open>
  The closure of one invocation of an adapted function: the two user handlers and the
  promise it returned.
\<close>

record invocation =
  userSuccess :: jsval
  userFailure :: jsval
  deferred :: promise

text \<open>
  The mutable state: the \<open>outcomeRedirector\<close> field of the options record that the adapted
  functions share (\<open>Undefined\<close> when absent), the invocations made so far, and the log.
\<close>

record world =
  outcomeRedirector :: jsval
  invocations :: "invocation list"
  calls :: "call list"

definition promiseOf :: "world \<Rightarrow> nat \<Rightarrow> promise" where
  "promiseOf w k = deferred (invocations w ! k)"

text \<open>
  The code outside the adapter: \<open>body f this args\<close> is what the function value \<open>f\<close> does when
  it is applied, as a list of statements. It calls values (its arguments among them), with
  or without catching what they throw, and it returns a value or throws. Originals, user
  handlers and user redirectors are all such functions.
\<close>

datatype stmt =
    Call jsval "jsval list"
  | TryCall jsval "jsval list"
  | Return jsval
  | Throw exn

record env =
  body :: "jsval \<Rightarrow> jsval option \<Rightarrow> jsval list \<Rightarrow> stmt list"

text \<open>
  How an application ends: with a value, with the promise of invocation \<open>k\<close> (what an adapted
  function returns), or with an exception. An application that does not end within the
  call depth at hand has no result (\<open>None\<close>). An applier is \<open>fn.apply(this, args)\<close>.
\<close>

datatype outcome = Returned jsval | ReturnedPromise nat | Threw exn

type_synonym result = "(outcome \<times> world) option"

type_synonym applier = "jsval \<Rightarrow> jsval option \<Rightarrow> jsval list \<Rightarrow> world \<Rightarrow> result"

fun truthyOutcome :: "outcome \<Rightarrow> bool" where
  "truthyOutcome (Returned v) = truthy v"
| "truthyOutcome (ReturnedPromise k) = True"
| "truthyOutcome (Threw e) = False"

text \<open>\<open>execute\<close>: what the applied function throws goes on to the caller of \<open>execute\<close>.\<close>

definition execute :: "applier \<Rightarrow> jsval \<Rightarrow> jsval list \<Rightarrow> jsval \<Rightarrow> world \<Rightarrow> result" where
  "execute ap fn args context w =
     (if isFunction fn
      then ap fn (if truthy context then Some context else None) args
             (w\<lparr>calls := calls w @
                  [ExecuteApply fn (if truthy context then Some context else None) args]\<rparr>)
      else Some (Returned Null, w))"

text \<open>
  A call of a settlement function of the promise of invocation \<open>k\<close>: it is logged, and the
  promise changes as the function says.
\<close>

definition settle :: "nat \<Rightarrow> (promise \<Rightarrow> promise) \<Rightarrow> call \<Rightarrow> world \<Rightarrow> world" where
  "settle k f c w =
     (if k < length (invocations w)
      then w\<lparr>invocations :=
               (invocations w)[k := (invocations w ! k)\<lparr>deferred := f (deferred (invocations w ! k))\<rparr>],
             calls := calls w @ [c]\<rparr>
      else w)"

text \<open>
  \<open>executeSuccess\<close> and \<open>executeFailure\<close> of invocation \<open>k\<close>: the user handler runs first, and
  the promise is settled only when the handler has returned.
\<close>

definition executeSuccess :: "applier \<Rightarrow> nat \<Rightarrow> jsval list \<Rightarrow> world \<Rightarrow> result" where
  "executeSuccess ap k executionArgs w =
     (case execute ap (userSuccess (invocations w ! k)) executionArgs Undefined w of
        None \<Rightarrow> None
      | Some (Threw e, w1) \<Rightarrow> Some (Threw e, w1)
      | Some (r, w1) \<Rightarrow>
          Some (Returned Undefined, settle k (resolve executionArgs) (Resolve k executionArgs) w1))"

definition executeFailure :: "applier \<Rightarrow> nat \<Rightarrow> jsval list \<Rightarrow> world \<Rightarrow> result" where
  "executeFailure ap k executionArgs w =
     (case execute ap (userFailure (invocations w ! k)) executionArgs Undefined w of
        None \<Rightarrow> None
      | Some (Threw e, w1) \<Rightarrow> Some (Threw e, w1)
      | Some (r, w1) \<Rightarrow>
          Some (Returned Undefined,
                settle k (reject (Args executionArgs)) (Reject k (Args executionArgs)) w1))"

text \<open>
  The two injected handlers of invocation \<open>k\<close>. Each first stores its default in the shared
  options record when no redirector is there, then dispatches on what the redirector returns.
  A handler of an invocation that was never made does nothing.
\<close>

definition dispatch :: "applier \<Rightarrow> nat \<Rightarrow> jsval \<Rightarrow> jsval list \<Rightarrow> world \<Rightarrow> result" where
  "dispatch ap k dflt executionArgs w =
     (if k < length (invocations w) then
        (let w1 = w\<lparr>outcomeRedirector :=
                      (if truthy (outcomeRedirector w) then outcomeRedirector w else dflt)\<rparr>
         in case execute ap (outcomeRedirector w1) executionArgs Undefined w1 of
              None \<Rightarrow> None
            | Some (Threw e, w2) \<Rightarrow> Some (Threw e, w2)
            | Some (r, w2) \<Rightarrow>
                if truthyOutcome r then executeSuccess ap k executionArgs w2
                else executeFailure ap k executionArgs w2)
      else Some (Returned Undefined, w))"

definition onSuccessPromiseified :: "applier \<Rightarrow> nat \<Rightarrow> jsval list \<Rightarrow> world \<Rightarrow> result" where
  "onSuccessPromiseified ap k executionArgs w = dispatch ap k TrueRedirector executionArgs w"

definition onErrorPromiseified :: "applier \<Rightarrow> nat \<Rightarrow> jsval list \<Rightarrow> world \<Rightarrow> result" where
  "onErrorPromiseified ap k executionArgs w = dispatch ap k FalseRedirector executionArgs w"

text \<open>
  The argument list the target of an invocation is applied to, and the state at the moment
  it is applied: the promise exists and is pending, the application is logged.
\<close>

definition injectedArgs :: "jsval list \<Rightarrow> world \<Rightarrow> jsval list" where
  "injectedArgs A w =
     executionArguments (separateArguments A) @
       [OnSuccessPromiseified (length (invocations w)),
        OnErrorPromiseified (length (invocations w))]"

definition started :: "jsval \<Rightarrow> jsval \<Rightarrow> jsval list \<Rightarrow> world \<Rightarrow> world" where
  "started target context A w =
     w\<lparr>invocations := invocations w @
          [\<lparr>userSuccess = successHandler (separateArguments A),
            userFailure = failureHandler (separateArguments A), deferred = Pending\<rparr>],
       calls := calls w @
          [TargetApply (length (invocations w)) target context (injectedArgs A w)]\<rparr>"

text \<open>
  The function \<open>doPromiseify\<close> returns for a callable target, applied to the arguments \<open>A\<close>:
  it separates the handlers, creates the promise, injects the two handlers and applies the
  target inside the executor. The promise constructor catches what the executor throws and
  rejects the promise with it, so the function always returns its promise.
\<close>

definition adapted :: "applier \<Rightarrow> jsval \<Rightarrow> jsval \<Rightarrow> jsval list \<Rightarrow> world \<Rightarrow> result" where
  "adapted ap target context A w =
     (let k = length (invocations w)
      in case ap target (Some context) (injectedArgs A w) (started target context A w) of
           None \<Rightarrow> None
         | Some (Threw e, w3) \<Rightarrow>
             Some (ReturnedPromise k, settle k (reject (Thrown e)) (Reject k (Thrown e)) w3)
         | Some (r, w3) \<Rightarrow> Some (ReturnedPromise k, w3))"

text \<open>
  Running the statements of a function outside the adapter. A value that is not callable
  cannot be called (\<open>TypeError\<close>); what a called function throws ends the run, unless the
  call is inside \<open>try\<close>.
\<close>

fun run :: "applier \<Rightarrow> stmt list \<Rightarrow> world \<Rightarrow> result" where
  "run ap [] w = Some (Returned Undefined, w)"
| "run ap (Return v # ss) w = Some (Returned v, w)"
| "run ap (Throw e # ss) w = Some (Threw e, w)"
| "run ap (Call f args # ss) w =
     (if isFunction f then
        (case ap f (Some Undefined) args w of
           None \<Rightarrow> None
         | Some (Threw e, w') \<Rightarrow> Some (Threw e, w')
         | Some (r, w') \<Rightarrow> run ap ss w')
      else Some (Threw TypeError, w))"
| "run ap (TryCall f args # ss) w =
     (if isFunction f then
        (case ap f (Some Undefined) args w of
           None \<Rightarrow> None
         | Some (r, w') \<Rightarrow> run ap ss w')
      else run ap ss w)"

text \<open>
  Applying a function value, with calls nested at most \<open>n\<close> deep: the injected handlers, the
  adapted functions and the redirectors of the adapter are the code above, every other
  function does what the environment says.
\<close>

primrec applyFn :: "env \<Rightarrow> nat \<Rightarrow> applier" where
  "applyFn E 0 = (\<lambda>f this args w. None)"
| "applyFn E (Suc n) =
     (\<lambda>f this args w.
        case f of
          OnSuccessPromiseified k \<Rightarrow> onSuccessPromiseified (applyFn E n) k args w
        | OnErrorPromiseified k \<Rightarrow> onErrorPromiseified (applyFn E n) k args w
        | Adapted target context \<Rightarrow> adapted (applyFn E n) target context args w
        | TrueRedirector \<Rightarrow> Some (Returned (Bool True), w)
        | FalseRedirector \<Rightarrow> Some (Returned (Bool False), w)
        | NodeStyleRedirector \<Rightarrow> Some (Returned (Bool (\<not> truthy (arg args 0))), w)
        | _ \<Rightarrow> run (applyFn E n) (body E f this args) w)"

text \<open>
  What the log says about the promise of invocation \<open>k\<close>: the first call of one of its
  settlement functions decides, and it is pending when there is none.
\<close>

fun settlement :: "nat \<Rightarrow> call list \<Rightarrow> promise" where
  "settlement k [] = Pending"
| "settlement k (Resolve j R # cs) = (if j = k then Fulfilled R else settlement k cs)"
| "settlement k (Reject j e # cs) = (if j = k then Rejected e else settlement k cs)"
| "settlement k (c # cs) = settlement k cs"

text \<open>The state agrees with the log on every promise, made or not yet made.\<close>

definition consistent :: "world \<Rightarrow> bool" where
  "consistent w \<longleftrightarrow>
     (\<forall>k. settlement k (calls w) = (if k < length (invocations w) then promiseOf w k else Pending))"

text \<open>The applications of the target of invocation \<open>k\<close> in a log.\<close>

fun isApplyOf :: "nat \<Rightarrow> call \<Rightarrow> bool" where
  "isApplyOf k (TargetApply j target context args) = (j = k)"
| "isApplyOf k c = False"

text \<open>
  How the state may change while code runs: promises are added, never removed; a settled
  promise and the handlers of an invocation stay as they are; the log grows at its end, and
  a target application that is added belongs to an invocation made meanwhile; a redirector
  that is there stays. A step is such a change that also keeps the state consistent with
  the log, and an applier is sound when every application that ends is a step.
\<close>

definition extends :: "world \<Rightarrow> world \<Rightarrow> bool" where
  "extends w w' \<longleftrightarrow>
     length (invocations w) \<le> length (invocations w')
     \<and> (\<forall>k<length (invocations w).
          (promiseOf w k \<noteq> Pending \<longrightarrow> promiseOf w' k = promiseOf w k)
          \<and> userSuccess (invocations w' ! k) = userSuccess (invocations w ! k)
          \<and> userFailure (invocations w' ! k) = userFailure (invocations w ! k))
     \<and> (\<exists>ext. calls w' = calls w @ ext
            \<and> (\<forall>c\<in>set ext. \<forall>j. isApplyOf j c \<longrightarrow> length (invocations w) \<le> j))
     \<and> (truthy (outcomeRedirector w) \<longrightarrow> outcomeRedirector w' = outcomeRedirector w)"

definition step :: "world \<Rightarrow> world \<Rightarrow> bool" where
  "step w w' \<longleftrightarrow> extends w w' \<and> (consistent w \<longrightarrow> consistent w')"

definition sound :: "applier \<Rightarrow> bool" where
  "sound ap \<longleftrightarrow> (\<forall>f this args w out w'. ap f this args w = Some (out, w') \<longrightarrow> step w w')"

text \<open>The two parts of a result: how the application ended, and the state it left.\<close>

definition outcomeOf :: "result \<Rightarrow> outcome option" where
  "outcomeOf r = map_option fst r"

definition worldOf :: "result \<Rightarrow> world option" where
  "worldOf r = map_option snd r"

definition promiseIn :: "result \<Rightarrow> nat \<Rightarrow> promise option" where
  "promiseIn r k = map_option (\<lambda>w. promiseOf w k) (worldOf r)"


section \<open>Objects\<close>

text \<open>
  An object is its own properties and, nearest first, the own properties of the objects on
  its prototype chain; a property list stands for the map \<open>map_of\<close> makes of it. The heap
  gives the object behind every reference. The adapter writes own properties only, so the
  ancestors are kept with the object.
\<close>

type_synonym props = "(string \<times> jsval) list"

record jsobject =
  own :: props
  ancestors :: "props list"

type_synonym heap = "nat \<Rightarrow> jsobject"

definition getOwnPropertyNames :: "props \<Rightarrow> string list" where
  "getOwnPropertyNames ps = remdups (map fst ps)"

text \<open>\<open>target[name]\<close> for an object given by its chain: the nearest definition, or \<open>undefined\<close>.\<close>

fun getProperty :: "props list \<Rightarrow> string \<Rightarrow> jsval" where
  "getProperty [] name = Undefined"
| "getProperty (ps # rest) name =
     (case map_of ps name of Some v \<Rightarrow> v | None \<Rightarrow> getProperty rest name)"

definition chain :: "heap \<Rightarrow> jsval \<Rightarrow> props list" where
  "chain h target =
     (case target of
        Obj r \<Rightarrow> own (h r) # ancestors (h r)
      | Arr r \<Rightarrow> own (h r) # ancestors (h r)
      | _ \<Rightarrow> [])"

text \<open>
  The \<open>do ... while\<close> loop of \<open>getAllFunctionNames\<close>, one level of the chain per round. The
  four filters run on the names of the level before any of them is pushed. The first
  argument is \<open>OBJECT_PROTOTYPE_FUNCTION_NAMES\<close>, which the platform determines.
\<close>

fun collectFunctionNames :: "string list \<Rightarrow> props list \<Rightarrow> string list \<Rightarrow> string list" where
  "collectFunctionNames opn [] functionNames = functionNames"
| "collectFunctionNames opn (ps # rest) functionNames =
     collectFunctionNames opn rest
       (functionNames @
          filter (\<lambda>name. name \<notin> set functionNames)
            (filter (\<lambda>name. name \<notin> set opn)
               (filter (\<lambda>name. isFunction (getProperty (ps # rest) name))
                  (filter (\<lambda>name. truthy (getProperty (ps # rest) name))
                     (getOwnPropertyNames ps)))))"

definition getAllFunctionNames :: "string list \<Rightarrow> heap \<Rightarrow> jsval \<Rightarrow> string list" where
  "getAllFunctionNames opn h target =
     sort (if truthy target \<and> isObject target
           then collectFunctionNames opn (chain h target) []
           else [])"

section \<open>Adapting a target\<close>

record options =
  optOnly :: "string list option"
  optInclude :: "string list option"
  optExclude :: "string list option"

text \<open>Reading a property of \<open>null\<close> or \<open>undefined\<close> is a \<open>TypeError\<close>.\<close>

definition readProperty :: "heap \<Rightarrow> jsval \<Rightarrow> string \<Rightarrow> exn + jsval" where
  "readProperty h target name =
     (case target of
        Null \<Rightarrow> Inl TypeError
      | Undefined \<Rightarrow> Inl TypeError
      | _ \<Rightarrow> Inr (getProperty (chain h target) name))"

fun put :: "string \<Rightarrow> jsval \<Rightarrow> props \<Rightarrow> props" where
  "put name v [] = [(name, v)]"
| "put name v ((n, x) # ps) = (if n = name then (name, v) # ps else (n, x) # put name v ps)"

definition writeProperty :: "heap \<Rightarrow> jsval \<Rightarrow> string \<Rightarrow> jsval \<Rightarrow> heap" where
  "writeProperty h target name v =
     (case target of
        Obj r \<Rightarrow> h(r := (h r)\<lparr>own := put name v (own (h r))\<rparr>)
      | Arr r \<Rightarrow> h(r := (h r)\<lparr>own := put name v (own (h r))\<rparr>)
      | _ \<Rightarrow> h)"

text \<open>\<open>options.include.forEach\<close>: the property is read only for a name not yet selected.\<close>

fun includeNames :: "heap \<Rightarrow> jsval \<Rightarrow> string list \<Rightarrow> string list \<Rightarrow> exn + string list" where
  "includeNames h promisifiedObject [] targetFunctions = Inr targetFunctions"
| "includeNames h promisifiedObject (name # names) targetFunctions =
     (if name \<notin> set targetFunctions then
        (case readProperty h promisifiedObject name of
           Inl e \<Rightarrow> Inl e
         | Inr v \<Rightarrow>
             includeNames h promisifiedObject names
               (if isFunction v then targetFunctions @ [name] else targetFunctions))
      else includeNames h promisifiedObject names targetFunctions)"

fun excludeNames :: "string list \<Rightarrow> string list \<Rightarrow> string list" where
  "excludeNames [] targetFunctions = targetFunctions"
| "excludeNames (name # names) targetFunctions =
     excludeNames names (filter (\<lambda>candidate. candidate \<noteq> name) targetFunctions)"

text \<open>The function \<open>doPromiseify\<close> returns for a callable target, as a value.\<close>

definition promiseifyFunction :: "jsval \<Rightarrow> jsval \<Rightarrow> jsval" where
  "promiseifyFunction target context = Adapted target context"

text \<open>\<open>targetFunctions.forEach\<close>: each name is checked again before it is replaced.\<close>

fun promiseifyNames :: "heap \<Rightarrow> jsval \<Rightarrow> string list \<Rightarrow> exn + heap" where
  "promiseifyNames h target [] = Inr h"
| "promiseifyNames h target (name # names) =
     (case readProperty h target name of
        Inl e \<Rightarrow> Inl e
      | Inr v \<Rightarrow>
          if isFunction v
          then promiseifyNames (writeProperty h target name (promiseifyFunction v target))
                 target names
          else promiseifyNames h target names)"

definition doPromiseify ::
  "string list \<Rightarrow> jsval \<Rightarrow> options option \<Rightarrow> jsval \<Rightarrow> heap \<Rightarrow> exn + (jsval \<times> heap)" where
  "doPromiseify opn target opts context h =
     (let options = (case opts of
                       Some given \<Rightarrow> given
                     | None \<Rightarrow> \<lparr>optOnly = None, optInclude = None, optExclude = None\<rparr>)
      in if isFunction target then Inr (promiseifyFunction target context, h)
         else if isObject target then
           (let promisifiedObject = target;
                targetFunctions = getAllFunctionNames opn h target;
                selected =
                  (case optOnly options of
                     Some names \<Rightarrow> Inr names
                   | None \<Rightarrow>
                       (case (case optInclude options of
                                Some incl \<Rightarrow> includeNames h promisifiedObject incl []
                              | None \<Rightarrow> Inr targetFunctions) of
                          Inl e \<Rightarrow> Inl e
                        | Inr tf \<Rightarrow>
                            Inr (case optExclude options of
                                   Some excl \<Rightarrow> excludeNames excl tf
                                 | None \<Rightarrow> tf)))
            in case selected of
                 Inl e \<Rightarrow> Inl e
               | Inr names \<Rightarrow>
                   (case promiseifyNames h promisifiedObject names of
                      Inl e \<Rightarrow> Inl e
                    | Inr h' \<Rightarrow> Inr (promisifiedObject, h')))
         else Inl (Value (Str (''Cannot promiseify type: '' @ getType target))))"

definition Promiseify ::
  "string list \<Rightarrow> jsval \<Rightarrow> options option \<Rightarrow> heap \<Rightarrow> exn + (jsval \<times> heap)" where
  "Promiseify opn target opts h = doPromiseify opn target opts Null h"

text \<open>
  \<open>buildWithOutcomeRedirector\<close> stores the redirector in the options record and adapts the
  target; \<open>nodeStyle\<close> does so with \<open>error => !error\<close>.
\<close>

definition buildWithOutcomeRedirector ::
  "string list \<Rightarrow> jsval \<Rightarrow> options option \<Rightarrow> jsval \<Rightarrow> heap \<Rightarrow> world
     \<Rightarrow> (exn + (jsval \<times> heap)) \<times> world" where
  "buildWithOutcomeRedirector opn target opts redirector h w =
     (Promiseify opn target opts h, w\<lparr>outcomeRedirector := redirector\<rparr>)"

definition nodeStyle ::
  "string list \<Rightarrow> jsval \<Rightarrow> options option \<Rightarrow> heap \<Rightarrow> world
     \<Rightarrow> (exn + (jsval \<times> heap)) \<times> world" where
  "nodeStyle opn target opts h w =
     buildWithOutcomeRedirector opn target opts NodeStyleRedirector h w"

section \<open>Example environments\<close>

text \<open>Every function outside the adapter does nothing and returns \<open>undefined\<close>.\<close>

definition quietEnv :: env where
  "quietEnv = \<lparr>body = (\<lambda>f this args. [])\<rparr>"

text \<open>
  \<open>function (flag, ok, err) { flag ? ok('ok') : err('bad') }\<close>: the original reports success
  or failure through the handler its first argument selects.
\<close>

definition flagEnv :: env where
  "flagEnv =
     \<lparr>body = (\<lambda>f this args.
                if arg args 0 = Bool True then [Call (arg args 1) [Str ''ok'']]
                else [Call (arg args 2) [Str ''bad'']])\<rparr>"

text \<open>
  \<open>function (ok, err) { ok(1); throw 'boom' }\<close>: the original reports success through its
  first parameter and then throws.
\<close>

definition successThenThrowEnv :: env where
  "successThenThrowEnv =
     \<lparr>body = (\<lambda>f this args. [Call (arg args 0) [Num 1], Throw (Value (Str ''boom''))])\<rparr>"

text \<open>\<open>function () { throw 'boom' }\<close>.\<close>

definition throwEnv :: env where
  "throwEnv = \<lparr>body = (\<lambda>f this args. [Throw (Value (Str ''boom''))])\<rparr>"

text \<open>
  \<open>function (cb) { cb('boom'); cb(null, 1) }\<close>: an error-first original that calls its
  callback twice, first with an error and then without one.
\<close>

definition errorThenResultEnv :: env where
  "errorThenResultEnv =
     \<lparr>body = (\<lambda>f this args.
                [Call (arg args 0) [Str ''boom''], Call (arg args 0) [Null, Num 1]])\<rparr>"

text \<open>
  \<open>function (cb) { cb(null, 1) }\<close> as the original \<open>Fn 0\<close>, called with the user handler
  \<open>Fn 7\<close>, which is \<open>function () { throw 'late' }\<close>.
\<close>

definition throwingHandlerEnv :: env where
  "throwingHandlerEnv =
     \<lparr>body = (\<lambda>f this args.
                if f = Fn 7 then [Throw (Value (Str ''late''))]
                else [Call (arg args 0) [Null, Num 1]])\<rparr>"

text \<open>
  An object with a prototype: \<open>save\<close>, \<open>count\<close> and \<open>load\<close> are its own, the prototype defines
  \<open>toString\<close>, \<open>base\<close> and another \<open>save\<close>. Every other reference is an empty object.
\<close>

definition exampleHeap :: heap where
  "exampleHeap =
     (\<lambda>r. \<lparr>own = [], ancestors = []\<rparr>)
       (1 := \<lparr>own = [(''save'', Fn 1), (''count'', Num 3), (''load'', Fn 2)],
              ancestors = [[(''toString'', Fn 9), (''base'', Fn 3), (''save'', Fn 4)]]\<rparr>)"

text \<open>
  An empty array: \<open>length\<close> is its own property, \<open>push\<close> and \<open>pop\<close> come from the array
  prototype, \<open>toString\<close> from the base object type.
\<close>

definition arrayHeap :: heap where
  "arrayHeap =
     (\<lambda>r. \<lparr>own = [], ancestors = []\<rparr>)
       (2 := \<lparr>own = [(''length'', Num 0)],
              ancestors = [[(''push'', Fn 20), (''pop'', Fn 21)], [(''toString'', Fn 9)]]\<rparr>)"

text \<open>What a caller of \<open>doPromiseify\<close> gets back: the exception, or the returned value.\<close>

definition returned :: "exn + (jsval \<times> heap) \<Rightarrow> exn + jsval" where
  "returned res = map_sum id fst res"

text \<open>The target is an object or an array behind the reference \<open>r\<close>.\<close>

definition refersTo :: "jsval \<Rightarrow> nat \<Rightarrow> bool" where
  "refersTo target r \<longleftrightarrow> target = Obj r \<or> target = Arr r"

text \<open>The state before anything was adapted or called.\<close>

definition emptyWorld :: world where
  "emptyWorld = \<lparr>outcomeRedirector = Undefined, invocations = [], calls = []\<rparr>"

section \<open>Argument classification\<close>

lemma isFunction_Undefined [simp]: "\<not> isFunction Undefined"
  by (simp add: isFunction_def)

lemma two_last: "2 \<le> length A \<Longrightarrow> \<exists>C x y. A = C @ [x, y]"
proof -
  assume "2 \<le> length A"
  then obtain B y where A: "A = B @ [y]" and "B \<noteq> []"
    by (cases A rule: rev_cases) force+
  then obtain C x where "B = C @ [x]"
    by (cases B rule: rev_cases) auto
  with A show ?thesis by simp
qed

lemma separateArguments_two:
  "separateArguments (C @ [x, y]) =
     (if isFunction y \<and> isFunction x
      then \<lparr>successHandler = x, failureHandler = y, executionArguments = C\<rparr>
      else if isFunction y
      then \<lparr>successHandler = y, failureHandler = Undefined, executionArguments = C @ [x]\<rparr>
      else \<lparr>successHandler = Undefined, failureHandler = Undefined,
            executionArguments = C @ [x, y]\<rparr>)"
proof -
  have n: "nat (1 + int (length C)) = Suc (length C)" "nat (int (length C)) = length C"
    by simp_all
  show ?thesis
    by (simp add: separateArguments_def arg_def slice0_def Let_def nth_append n)
qed

text \<open>
  Claim C1. For every argument list \<open>A\<close> of an adapted call: an empty list gives no handlers
  and is forwarded as it is; a single callable element is the success handler and nothing is
  forwarded; a single element that is not callable is forwarded with no handlers; with two
  or more elements, when the last two are callable the second-to-last is the success handler,
  the last the failure handler, and both are stripped; when only the last is callable it is
  the success handler and is stripped; otherwise there are no handlers and \<open>A\<close> is forwarded
  unchanged.
\<close>

theorem separateArguments_classification:
  "(A = [] \<longrightarrow>
      separateArguments A =
        \<lparr>successHandler = Undefined, failureHandler = Undefined, executionArguments = A\<rparr>)
   \<and> (length A = 1 \<and> isFunction (hd A) \<longrightarrow>
      separateArguments A =
        \<lparr>successHandler = hd A, failureHandler = Undefined, executionArguments = []\<rparr>)
   \<and> (length A = 1 \<and> \<not> isFunction (hd A) \<longrightarrow>
      separateArguments A =
        \<lparr>successHandler = Undefined, failureHandler = Undefined, executionArguments = A\<rparr>)
   \<and> (2 \<le> length A \<and> isFunction (last A) \<and> isFunction (last (butlast A)) \<longrightarrow>
      separateArguments A =
        \<lparr>successHandler = last (butlast A), failureHandler = last A,
         executionArguments = butlast (butlast A)\<rparr>)
   \<and> (2 \<le> length A \<and> isFunction (last A) \<and> \<not> isFunction (last (butlast A)) \<longrightarrow>
      separateArguments A =
        \<lparr>successHandler = last A, failureHandler = Undefined,
         executionArguments = butlast A\<rparr>)
   \<and> (2 \<le> length A \<and> \<not> isFunction (last A) \<longrightarrow>
      separateArguments A =
        \<lparr>successHandler = Undefined, failureHandler = Undefined, executionArguments = A\<rparr>)"
proof (intro conjI impI)
  assume "A = []"
  then show "separateArguments A =
      \<lparr>successHandler = Undefined, failureHandler = Undefined, executionArguments = A\<rparr>"
    by (simp add: separateArguments_def arg_def)
next
  assume h: "length A = 1 \<and> isFunction (hd A)"
  then obtain x where "A = [x]" by (cases A) auto
  with h show "separateArguments A =
      \<lparr>successHandler = hd A, failureHandler = Undefined, executionArguments = []\<rparr>"
    by (simp add: separateArguments_def arg_def)
next
  assume h: "length A = 1 \<and> \<not> isFunction (hd A)"
  then obtain x where "A = [x]" by (cases A) auto
  with h show "separateArguments A =
      \<lparr>successHandler = Undefined, failureHandler = Undefined, executionArguments = A\<rparr>"
    by (simp add: separateArguments_def arg_def)
next
  assume h: "2 \<le> length A \<and> isFunction (last A) \<and> isFunction (last (butlast A))"
  then obtain C x y where "A = C @ [x, y]" using two_last by blast
  with h show "separateArguments A =
      \<lparr>successHandler = last (butlast A), failureHandler = last A,
       executionArguments = butlast (butlast A)\<rparr>"
    by (simp add: separateArguments_two butlast_append)
next
  assume h: "2 \<le> length A \<and> isFunction (last A) \<and> \<not> isFunction (last (butlast A))"
  then obtain C x y where "A = C @ [x, y]" using two_last by blast
  with h show "separateArguments A =
      \<lparr>successHandler = last A, failureHandler = Undefined, executionArguments = butlast A\<rparr>"
    by (simp add: separateArguments_two butlast_append)
next
  assume h: "2 \<le> length A \<and> \<not> isFunction (last A)"
  then obtain C x y where "A = C @ [x, y]" using two_last by blast
  with h show "separateArguments A =
      \<lparr>successHandler = Undefined, failureHandler = Undefined, executionArguments = A\<rparr>"
    by (simp add: separateArguments_two)
qed

theorem separateArguments_classification_witness:
  "separateArguments [] =
     \<lparr>successHandler = Undefined, failureHandler = Undefined, executionArguments = []\<rparr>
   \<and> separateArguments [Fn 0] =
     \<lparr>successHandler = Fn 0, failureHandler = Undefined, executionArguments = []\<rparr>
   \<and> separateArguments [Num 1] =
     \<lparr>successHandler = Undefined, failureHandler = Undefined, executionArguments = [Num 1]\<rparr>
   \<and> separateArguments [Num 1, Fn 0, Fn 1] =
     \<lparr>successHandler = Fn 0, failureHandler = Fn 1, executionArguments = [Num 1]\<rparr>
   \<and> separateArguments [Num 1, Str ''a'', Fn 1] =
     \<lparr>successHandler = Fn 1, failureHandler = Undefined,
      executionArguments = [Num 1, Str ''a'']\<rparr>
   \<and> separateArguments [Fn 0, Num 2] =
     \<lparr>successHandler = Undefined, failureHandler = Undefined,
      executionArguments = [Fn 0, Num 2]\<rparr>"
  using separateArguments_classification [of "[]"]
    separateArguments_classification [of "[Fn 0]"]
    separateArguments_classification [of "[Num 1]"]
    separateArguments_classification [of "[Num 1, Fn 0, Fn 1]"]
    separateArguments_classification [of "[Num 1, Str ''a'', Fn 1]"]
    separateArguments_classification [of "[Fn 0, Num 2]"]
  by (simp add: isFunction_def)

section \<open>Enumerating the callable names\<close>

lemma isFunction_truthy: "isFunction v \<Longrightarrow> truthy v"
  by (cases v) (simp_all add: isFunction_def)

lemma own_name_defined:
  "name \<in> set (getOwnPropertyNames ps) \<longleftrightarrow> (\<exists>v. map_of ps name = Some v)"
proof
  assume "name \<in> set (getOwnPropertyNames ps)"
  then obtain b where "(name, b) \<in> set ps" by (auto simp: getOwnPropertyNames_def)
  then show "\<exists>v. map_of ps name = Some v" by (rule weak_map_of_SomeI)
next
  assume "\<exists>v. map_of ps name = Some v"
  then obtain v where "map_of ps name = Some v" by blast
  then have "(name, v) \<in> set ps" by (rule map_of_SomeD)
  then show "name \<in> set (getOwnPropertyNames ps)"
    by (force simp: getOwnPropertyNames_def)
qed

lemma level_names:
  "set (filter (\<lambda>name. isFunction (getProperty (ps # rest) name))
          (filter (\<lambda>name. truthy (getProperty (ps # rest) name)) (getOwnPropertyNames ps)))
   = {name. \<exists>v. map_of ps name = Some v \<and> isFunction v}"
  by (auto simp: own_name_defined isFunction_truthy)

lemma collectFunctionNames_set:
  "set (collectFunctionNames opn ch acc) =
     set acc \<union> {name. name \<notin> set opn \<and> (\<exists>ps\<in>set ch. \<exists>v. map_of ps name = Some v \<and> isFunction v)}"
proof (induction ch arbitrary: acc)
  case Nil
  then show ?case by simp
next
  case (Cons ps rest)
  have "set (collectFunctionNames opn (ps # rest) acc) =
      set (acc @ filter (\<lambda>name. name \<notin> set acc) (filter (\<lambda>name. name \<notin> set opn)
        (filter (\<lambda>name. isFunction (getProperty (ps # rest) name))
          (filter (\<lambda>name. truthy (getProperty (ps # rest) name)) (getOwnPropertyNames ps)))))
      \<union> {name. name \<notin> set opn \<and> (\<exists>qs\<in>set rest. \<exists>v. map_of qs name = Some v \<and> isFunction v)}"
    by (simp only: collectFunctionNames.simps Cons.IH)
  also have "\<dots> = set acc \<union> {name. name \<notin> set opn
      \<and> (\<exists>qs\<in>set (ps # rest). \<exists>v. map_of qs name = Some v \<and> isFunction v)}"
    using level_names [of ps rest] by (simp only: set_append set_filter) auto
  finally show ?case .
qed

lemma collectFunctionNames_distinct:
  "distinct acc \<Longrightarrow> distinct (collectFunctionNames opn ch acc)"
proof (induction ch arbitrary: acc)
  case Nil
  then show ?case by simp
next
  case (Cons ps rest)
  have "distinct (getOwnPropertyNames ps)" by (simp add: getOwnPropertyNames_def)
  with Cons.prems show ?case
    by (simp only: collectFunctionNames.simps) (rule Cons.IH, auto)
qed

lemma chain_not_object: "\<not> (truthy target \<and> isObject target) \<Longrightarrow> chain h target = []"
  by (cases target) (simp_all add: chain_def isObject_def)

text \<open>
  Claim C6. \<open>getAllFunctionNames\<close> returns exactly the names that are not among the names the
  base object type defines and that have a callable value among the own properties of the
  target or of one of its ancestors; no name occurs twice, and the names are in
  lexicographic order.
\<close>

theorem getAllFunctionNames_names:
  "set (getAllFunctionNames opn h target) =
     {name. name \<notin> set opn
        \<and> (\<exists>ps\<in>set (chain h target). \<exists>v. map_of ps name = Some v \<and> isFunction v)}
   \<and> distinct (getAllFunctionNames opn h target)
   \<and> sorted (getAllFunctionNames opn h target)"
proof (cases "truthy target \<and> isObject target")
  case True
  then show ?thesis
    by (simp add: getAllFunctionNames_def collectFunctionNames_set collectFunctionNames_distinct)
next
  case False
  then have "chain h target = []" by (rule chain_not_object)
  with False show ?thesis by (simp add: getAllFunctionNames_def)
qed

theorem getAllFunctionNames_names_witness:
  "getAllFunctionNames [''toString''] exampleHeap (Obj 1) = [''base'', ''load'', ''save'']
   \<and> set [''base'', ''load'', ''save''] =
       {name. name \<notin> set [''toString'']
          \<and> (\<exists>ps\<in>set (chain exampleHeap (Obj 1)). \<exists>v. map_of ps name = Some v \<and> isFunction v)}
   \<and> sorted [''base'', ''load'', ''save'']"
proof -
  have e: "getAllFunctionNames [''toString''] exampleHeap (Obj 1) = [''base'', ''load'', ''save'']"
    by code_simp
  from getAllFunctionNames_names [of "[''toString'']" exampleHeap "Obj 1"] e
  show ?thesis by simp
qed

section \<open>Adapting an object\<close>

lemma map_of_put: "map_of (put name v ps) = (map_of ps)(name \<mapsto> v)"
  by (induction ps) (auto simp: fun_eq_iff)

lemma refersTo_facts:
  assumes "refersTo target r"
  shows "\<not> isFunction target" "isObject target" "truthy target"
    "chain h target = own (h r) # ancestors (h r)"
    "readProperty h target name = Inr (getProperty (chain h target) name)"
    "writeProperty h target name v = h(r := (h r)\<lparr>own := put name v (own (h r))\<rparr>)"
  using assms
  by (auto simp: refersTo_def isFunction_def isObject_def chain_def readProperty_def
      writeProperty_def)

lemma includeNames_total:
  "refersTo target r \<Longrightarrow> \<exists>tf. includeNames h target names acc = Inr tf"
  by (induction names arbitrary: acc) (auto simp: refersTo_facts)

lemma promiseifyNames_effect:
  "refersTo target r \<Longrightarrow>
   \<exists>h'. promiseifyNames h target names = Inr h'
     \<and> (\<forall>r'. r' \<noteq> r \<longrightarrow> h' r' = h r')
     \<and> ancestors (h' r) = ancestors (h r)
     \<and> (\<forall>name. name \<notin> set names \<or> \<not> isFunction (getProperty (chain h target) name) \<longrightarrow>
          map_of (own (h' r)) name = map_of (own (h r)) name)"
proof (induction names arbitrary: h)
  case Nil
  then show ?case by simp
next
  case (Cons n names)
  note t = Cons.prems
  let ?v = "getProperty (chain h target) n"
  show ?case
  proof (cases "isFunction ?v")
    case False
    from Cons.IH [OF t, of h] obtain h' where h':
      "promiseifyNames h target names = Inr h'"
      "\<forall>r'. r' \<noteq> r \<longrightarrow> h' r' = h r'"
      "ancestors (h' r) = ancestors (h r)"
      "\<forall>name. name \<notin> set names \<or> \<not> isFunction (getProperty (chain h target) name) \<longrightarrow>
          map_of (own (h' r)) name = map_of (own (h r)) name"
      by blast
    from False h'(1) have "promiseifyNames h target (n # names) = Inr h'"
      by (simp add: refersTo_facts(5) [OF t])
    with h'(2,3,4) show ?thesis by auto
  next
    case True
    let ?h1 = "h(r := (h r)\<lparr>own := put n (promiseifyFunction ?v target) (own (h r))\<rparr>)"
    from Cons.IH [OF t, of ?h1] obtain h' where h':
      "promiseifyNames ?h1 target names = Inr h'"
      "\<forall>r'. r' \<noteq> r \<longrightarrow> h' r' = ?h1 r'"
      "ancestors (h' r) = ancestors (?h1 r)"
      "\<forall>name. name \<notin> set names \<or> \<not> isFunction (getProperty (chain ?h1 target) name) \<longrightarrow>
          map_of (own (h' r)) name = map_of (own (?h1 r)) name"
      by blast
    from True h'(1) have res: "promiseifyNames h target (n # names) = Inr h'"
      by (simp add: refersTo_facts(5,6) [OF t])
    have other: "getProperty (chain ?h1 target) name = getProperty (chain h target) name"
      if "name \<noteq> n" for name
      using that by (simp add: refersTo_facts(4) [OF t] map_of_put)
    have "map_of (own (h' r)) name = map_of (own (h r)) name"
      if "name \<notin> set (n # names) \<or> \<not> isFunction (getProperty (chain h target) name)" for name
    proof -
      from that True have ne: "name \<noteq> n" by auto
      with that have "name \<notin> set names \<or> \<not> isFunction (getProperty (chain ?h1 target) name)"
        by (auto simp: other)
      with h'(4) have "map_of (own (h' r)) name = map_of (own (?h1 r)) name" by blast
      with ne show ?thesis by (simp add: map_of_put)
    qed
    with res h'(2,3) show ?thesis by auto
  qed
qed

lemma doPromiseify_object_returns:
  assumes "refersTo target r"
  shows "returned (doPromiseify opn target opts context h) = Inr target"
proof -
  have p: "\<exists>h'. promiseifyNames h target names = Inr h'" for names
    using promiseifyNames_effect [OF assms, of h names] by blast
  have i: "\<exists>tf. includeNames h target names [] = Inr tf" for names
    using includeNames_total [OF assms] by blast
  show ?thesis
  proof (cases opts)
    case None
    then show ?thesis
      using p [of "getAllFunctionNames opn h target"]
      by (auto simp: doPromiseify_def returned_def refersTo_facts(1,2) [OF assms] Let_def)
  next
    case (Some given)
    show ?thesis
    proof (cases "optOnly given")
      case (Some names)
      with \<open>opts = Some given\<close> show ?thesis
        using p [of names]
        by (auto simp: doPromiseify_def returned_def refersTo_facts(1,2) [OF assms] Let_def)
    next
      case None
      obtain tf where tf: "(case optInclude given of
            Some incl \<Rightarrow> includeNames h target incl []
          | None \<Rightarrow> Inr (getAllFunctionNames opn h target)) = Inr tf"
        using i by (cases "optInclude given") auto
      obtain h' where "promiseifyNames h target
          (case optExclude given of Some excl \<Rightarrow> excludeNames excl tf | None \<Rightarrow> tf) = Inr h'"
        using p by blast
      with None tf \<open>opts = Some given\<close> show ?thesis
        by (simp add: doPromiseify_def returned_def refersTo_facts(1,2) [OF assms] Let_def)
    qed
  qed
qed

section \<open>Targets that cannot be adapted\<close>

text \<open>
  Claim C5, as stated, at an empty array adapted with no options: nothing is thrown, the
  array itself is returned, with \<open>push\<close> and \<open>pop\<close> adapted.
\<close>

theorem array_is_adapted_counterexample:
  "returned (Promiseify [''toString''] (Arr 2) None arrayHeap) = Inr (Arr 2)
   \<and> isObject (Arr 2)
   \<and> getAllFunctionNames [''toString''] arrayHeap (Arr 2) = [''pop'', ''push'']"
proof -
  have "getAllFunctionNames [''toString''] arrayHeap (Arr 2) = [''pop'', ''push'']"
    by code_simp
  then show ?thesis
    by (simp add: Promiseify_def doPromiseify_def returned_def isFunction_def isObject_def
        readProperty_def chain_def arrayHeap_def writeProperty_def promiseifyFunction_def
        Let_def)
qed

text \<open>
  Claim C5, amended. A target whose type is neither \<open>function\<close> nor \<open>object\<close> is refused with
  the thrown string \<open>Cannot promiseify type: \<close> followed by its type, and these targets are
  \<open>undefined\<close>, the booleans, the numbers and the strings. An array is of type \<open>object\<close>, and
  adapting it returns the array and throws nothing.
\<close>

theorem type_mismatch_throws:
  "(\<not> isFunction target \<and> \<not> isObject target \<longrightarrow>
      doPromiseify opn target opts context h =
        Inl (Value (Str (''Cannot promiseify type: '' @ getType target)))
      \<and> (target = Undefined \<or> (\<exists>b. target = Bool b) \<or> (\<exists>n. target = Num n)
           \<or> (\<exists>s. target = Str s)))
   \<and> isObject (Arr r)
   \<and> returned (doPromiseify opn (Arr r) opts context h) = Inr (Arr r)"
proof (intro conjI impI)
  assume a: "\<not> isFunction target \<and> \<not> isObject target"
  then show "doPromiseify opn target opts context h =
        Inl (Value (Str (''Cannot promiseify type: '' @ getType target)))"
    by (simp add: doPromiseify_def)
  from a show "target = Undefined \<or> (\<exists>b. target = Bool b) \<or> (\<exists>n. target = Num n)
           \<or> (\<exists>s. target = Str s)"
    by (cases target) (simp_all add: isFunction_def isObject_def)
next
  show "isObject (Arr r)" by (simp add: isObject_def)
  show "returned (doPromiseify opn (Arr r) opts context h) = Inr (Arr r)"
    by (rule doPromiseify_object_returns) (simp add: refersTo_def)
qed

theorem type_mismatch_throws_witness:
  "\<not> isFunction (Num 5) \<and> \<not> isObject (Num 5)
   \<and> doPromiseify [] (Num 5) None Null arrayHeap =
       Inl (Value (Str ''Cannot promiseify type: number''))
   \<and> doPromiseify [] Undefined None Null arrayHeap =
       Inl (Value (Str ''Cannot promiseify type: undefined''))"
  using type_mismatch_throws [of "Num 5" "[]" None Null arrayHeap]
    type_mismatch_throws [of Undefined "[]" None Null arrayHeap]
  by (simp add: isFunction_def isObject_def)

section \<open>Adapting selected members\<close>

lemma Adapted_neq: "Adapted v t \<noteq> v"
  by (induction v arbitrary: t) auto

lemma doPromiseify_only:
  "refersTo target r \<Longrightarrow>
   doPromiseify opn target
     (Some \<lparr>optOnly = Some names, optInclude = incl, optExclude = excl\<rparr>) context h =
     (case promiseifyNames h target names of Inl e \<Rightarrow> Inl e | Inr h' \<Rightarrow> Inr (target, h'))"
  by (simp add: doPromiseify_def refersTo_facts(1,2) Let_def)

text \<open>
  Claim C7. Adapting an object whose \<open>save\<close> member is callable with \<open>only: ["save"]\<close> returns
  the same object; its \<open>save\<close> member is then the function that wraps the former one with
  the object as context, a value different from the former one; every other member reads
  as before, the ancestors are as before, and no other object has changed.
\<close>

theorem only_save_replaces_save_alone:
  assumes "refersTo target r"
    and "isFunction (getProperty (chain h target) ''save'')"
  shows "\<exists>h'. doPromiseify opn target
            (Some \<lparr>optOnly = Some [''save''], optInclude = incl, optExclude = excl\<rparr>) context h
          = Inr (target, h')
     \<and> getProperty (chain h' target) ''save'' =
         Adapted (getProperty (chain h target) ''save'') target
     \<and> getProperty (chain h' target) ''save'' \<noteq> getProperty (chain h target) ''save''
     \<and> (\<forall>name. name \<noteq> ''save'' \<longrightarrow>
           map_of (own (h' r)) name = map_of (own (h r)) name
           \<and> getProperty (chain h' target) name = getProperty (chain h target) name)
     \<and> ancestors (h' r) = ancestors (h r)
     \<and> (\<forall>r'. r' \<noteq> r \<longrightarrow> h' r' = h r')"
proof -
  let ?v = "getProperty (chain h target) ''save''"
  let ?h' = "h(r := (h r)\<lparr>own := put ''save'' (Adapted ?v target) (own (h r))\<rparr>)"
  note t = assms(1)
  have "doPromiseify opn target
      (Some \<lparr>optOnly = Some [''save''], optInclude = incl, optExclude = excl\<rparr>) context h
      = Inr (target, ?h')"
    using assms(2)
    by (simp add: doPromiseify_only [OF t] refersTo_facts(5,6) [OF t] promiseifyFunction_def)
  moreover have "getProperty (chain ?h' target) ''save'' = Adapted ?v target"
    by (simp add: refersTo_facts(4) [OF t] map_of_put)
  moreover have "getProperty (chain ?h' target) ''save'' \<noteq> ?v"
    by (simp add: refersTo_facts(4) [OF t] map_of_put Adapted_neq)
  moreover have "\<forall>name. name \<noteq> ''save'' \<longrightarrow>
      map_of (own (?h' r)) name = map_of (own (h r)) name
      \<and> getProperty (chain ?h' target) name = getProperty (chain h target) name"
    by (simp add: refersTo_facts(4) [OF t] map_of_put)
  moreover have "ancestors (?h' r) = ancestors (h r)" by simp
  moreover have "\<forall>r'. r' \<noteq> r \<longrightarrow> ?h' r' = h r'" by simp
  ultimately show ?thesis by blast
qed

theorem only_save_replaces_save_alone_witness:
  "refersTo (Obj 1) 1
   \<and> isFunction (getProperty (chain exampleHeap (Obj 1)) ''save'')
   \<and> (\<exists>h'. doPromiseify [''toString''] (Obj 1)
            (Some \<lparr>optOnly = Some [''save''], optInclude = None, optExclude = None\<rparr>)
            Null exampleHeap
          = Inr (Obj 1, h')
        \<and> getProperty (chain h' (Obj 1)) ''save'' =
            Adapted (getProperty (chain exampleHeap (Obj 1)) ''save'') (Obj 1)
        \<and> getProperty (chain h' (Obj 1)) ''save'' \<noteq> getProperty (chain exampleHeap (Obj 1)) ''save''
        \<and> (\<forall>name. name \<noteq> ''save'' \<longrightarrow>
              map_of (own (h' 1)) name = map_of (own (exampleHeap 1)) name
              \<and> getProperty (chain h' (Obj 1)) name = getProperty (chain exampleHeap (Obj 1)) name)
        \<and> ancestors (h' 1) = ancestors (exampleHeap 1)
        \<and> (\<forall>r'. r' \<noteq> 1 \<longrightarrow> h' r' = exampleHeap r'))
   \<and> getProperty (chain exampleHeap (Obj 1)) ''save'' = Fn 1"
proof -
  have a: "refersTo (Obj 1) 1" by (simp add: refersTo_def)
  have c: "getProperty (chain exampleHeap (Obj 1)) ''save'' = Fn 1"
    by (simp add: chain_def exampleHeap_def)
  have b: "isFunction (getProperty (chain exampleHeap (Obj 1)) ''save'')"
    by (simp only: c) (simp add: isFunction_def)
  from a b c only_save_replaces_save_alone [OF a b, of "[''toString'']" None None Null]
  show ?thesis by blast
qed

text \<open>
  Claim C10. With an \<open>only\<close> list, the names of the list are the selected names as they
  are, and adapting an object raises no error and returns the object. A name whose value
  on the target is not callable is skipped: the property at that name is as it was,
  whether or not the name is in the list.
\<close>

theorem only_skips_names_not_callable:
  assumes "refersTo target r"
  shows "\<exists>h'. doPromiseify opn target
            (Some \<lparr>optOnly = Some names, optInclude = incl, optExclude = excl\<rparr>) context h
          = Inr (target, h')
     \<and> promiseifyNames h target names = Inr h'
     \<and> (\<forall>name. \<not> isFunction (getProperty (chain h target) name) \<longrightarrow>
           map_of (own (h' r)) name = map_of (own (h r)) name
           \<and> getProperty (chain h' target) name = getProperty (chain h target) name)"
proof -
  from promiseifyNames_effect [OF assms, of h names] obtain h' where h':
    "promiseifyNames h target names = Inr h'"
    "ancestors (h' r) = ancestors (h r)"
    "\<forall>name. name \<notin> set names \<or> \<not> isFunction (getProperty (chain h target) name) \<longrightarrow>
          map_of (own (h' r)) name = map_of (own (h r)) name"
    by blast
  have "doPromiseify opn target
      (Some \<lparr>optOnly = Some names, optInclude = incl, optExclude = excl\<rparr>) context h
      = Inr (target, h')"
    by (simp add: doPromiseify_only [OF assms] h'(1))
  moreover have "\<forall>name. \<not> isFunction (getProperty (chain h target) name) \<longrightarrow>
      map_of (own (h' r)) name = map_of (own (h r)) name
      \<and> getProperty (chain h' target) name = getProperty (chain h target) name"
    using h'(2,3) by (simp add: refersTo_facts(4) [OF assms])
  ultimately show ?thesis using h'(1) by blast
qed

theorem only_skips_names_not_callable_witness:
  "refersTo (Obj 1) 1
   \<and> \<not> isFunction (getProperty (chain exampleHeap (Obj 1)) ''count'')
   \<and> (\<exists>h'. doPromiseify [''toString''] (Obj 1)
            (Some \<lparr>optOnly = Some [''count'', ''missing'', ''load''], optInclude = None,
                   optExclude = None\<rparr>)
            Null exampleHeap
          = Inr (Obj 1, h')
        \<and> promiseifyNames exampleHeap (Obj 1) [''count'', ''missing'', ''load''] = Inr h'
        \<and> (\<forall>name. \<not> isFunction (getProperty (chain exampleHeap (Obj 1)) name) \<longrightarrow>
              map_of (own (h' 1)) name = map_of (own (exampleHeap 1)) name
              \<and> getProperty (chain h' (Obj 1)) name = getProperty (chain exampleHeap (Obj 1)) name))"
proof -
  have a: "refersTo (Obj 1) 1" by (simp add: refersTo_def)
  have b: "\<not> isFunction (getProperty (chain exampleHeap (Obj 1)) ''count'')"
    by (simp add: chain_def exampleHeap_def isFunction_def)
  from a b only_skips_names_not_callable [OF a, of "[''toString'']"
      "[''count'', ''missing'', ''load'']" None None Null exampleHeap]
  show ?thesis by blast
qed

section \<open>Steps of the state\<close>

lemma extends_refl: "extends w w"
  by (simp add: extends_def)

lemma extends_trans:
  assumes "extends w w1" and "extends w1 w2"
  shows "extends w w2"
proof -
  from assms obtain e1 e2 where
    e1: "calls w1 = calls w @ e1" "\<forall>c\<in>set e1. \<forall>j. isApplyOf j c \<longrightarrow> length (invocations w) \<le> j"
    and e2: "calls w2 = calls w1 @ e2"
      "\<forall>c\<in>set e2. \<forall>j. isApplyOf j c \<longrightarrow> length (invocations w1) \<le> j"
    by (auto simp: extends_def)
  from assms have len: "length (invocations w) \<le> length (invocations w1)"
    "length (invocations w1) \<le> length (invocations w2)"
    by (auto simp: extends_def)
  have "calls w2 = calls w @ (e1 @ e2)" using e1(1) e2(1) by simp
  moreover have "\<forall>c\<in>set (e1 @ e2). \<forall>j. isApplyOf j c \<longrightarrow> length (invocations w) \<le> j"
    using e1(2) e2(2) len(1) by (auto intro: order_trans)
  ultimately have log: "\<exists>ext. calls w2 = calls w @ ext
      \<and> (\<forall>c\<in>set ext. \<forall>j. isApplyOf j c \<longrightarrow> length (invocations w) \<le> j)"
    by blast
  have inv: "(promiseOf w k \<noteq> Pending \<longrightarrow> promiseOf w2 k = promiseOf w k)
      \<and> userSuccess (invocations w2 ! k) = userSuccess (invocations w ! k)
      \<and> userFailure (invocations w2 ! k) = userFailure (invocations w ! k)"
    if k: "k < length (invocations w)" for k
  proof -
    from k len(1) have k1: "k < length (invocations w1)" by simp
    from assms(1) k have a: "promiseOf w k \<noteq> Pending \<longrightarrow> promiseOf w1 k = promiseOf w k"
      "userSuccess (invocations w1 ! k) = userSuccess (invocations w ! k)"
      "userFailure (invocations w1 ! k) = userFailure (invocations w ! k)"
      by (auto simp: extends_def)
    from assms(2) k1 have b: "promiseOf w1 k \<noteq> Pending \<longrightarrow> promiseOf w2 k = promiseOf w1 k"
      "userSuccess (invocations w2 ! k) = userSuccess (invocations w1 ! k)"
      "userFailure (invocations w2 ! k) = userFailure (invocations w1 ! k)"
      by (auto simp: extends_def)
    from a b show ?thesis by auto
  qed
  have red: "truthy (outcomeRedirector w) \<longrightarrow> outcomeRedirector w2 = outcomeRedirector w"
    using assms by (auto simp: extends_def)
  from len log inv red show ?thesis
    unfolding extends_def by (meson order_trans)
qed

lemma step_refl: "step w w"
  by (simp add: step_def extends_refl)

lemma step_trans: "step w w1 \<Longrightarrow> step w1 w2 \<Longrightarrow> step w w2"
  by (auto simp: step_def intro: extends_trans)

lemma settlement_append:
  "settlement k (cs @ [ExecuteApply f c a]) = settlement k cs"
  "settlement k (cs @ [TargetApply j t c' a]) = settlement k cs"
  "settlement k (cs @ [Resolve j R]) = (if j = k then resolve R (settlement k cs) else settlement k cs)"
  "settlement k (cs @ [Reject j e]) = (if j = k then reject e (settlement k cs) else settlement k cs)"
  by (induction k cs rule: settlement.induct) auto

lemma step_log: "step w (w\<lparr>calls := calls w @ [ExecuteApply f c a]\<rparr>)"
  by (simp add: step_def extends_def consistent_def promiseOf_def settlement_append)

lemma promiseOf_settle:
  "promiseOf (settle k f c w) j =
     (if j = k \<and> k < length (invocations w) then f (promiseOf w k) else promiseOf w j)"
  by (simp add: settle_def promiseOf_def nth_list_update)

lemma settle_frame [simp]:
  "length (invocations (settle k f c w)) = length (invocations w)"
  "outcomeRedirector (settle k f c w) = outcomeRedirector w"
  "userSuccess (invocations (settle k f c w) ! j) = userSuccess (invocations w ! j)"
  "userFailure (invocations (settle k f c w) ! j) = userFailure (invocations w ! j)"
  "calls (settle k f c w) = (if k < length (invocations w) then calls w @ [c] else calls w)"
  by (auto simp: settle_def nth_list_update)

lemma resolve_settled: "p \<noteq> Pending \<Longrightarrow> resolve R p = p"
  by (cases p) auto

lemma reject_settled: "p \<noteq> Pending \<Longrightarrow> reject e p = p"
  by (cases p) auto

lemma step_resolve: "step w (settle k (resolve R) (Resolve k R) w)"
  unfolding step_def extends_def consistent_def
  by (auto simp: promiseOf_settle resolve_settled settlement_append)

lemma step_reject: "step w (settle k (reject e) (Reject k e) w)"
  unfolding step_def extends_def consistent_def
  by (auto simp: promiseOf_settle reject_settled settlement_append)

lemma step_redirector:
  "step w (w\<lparr>outcomeRedirector :=
              (if truthy (outcomeRedirector w) then outcomeRedirector w else d)\<rparr>)"
  by (simp add: step_def extends_def consistent_def promiseOf_def)

lemma started_frame [simp]:
  "length (invocations (started target context A w)) = Suc (length (invocations w))"
  "promiseOf (started target context A w) (length (invocations w)) = Pending"
  "outcomeRedirector (started target context A w) = outcomeRedirector w"
  "calls (started target context A w) =
     calls w @ [TargetApply (length (invocations w)) target context (injectedArgs A w)]"
  "userSuccess (invocations (started target context A w) ! length (invocations w)) =
     successHandler (separateArguments A)"
  "userFailure (invocations (started target context A w) ! length (invocations w)) =
     failureHandler (separateArguments A)"
  by (simp_all add: started_def promiseOf_def)

lemma started_old:
  "k < length (invocations w) \<Longrightarrow>
   invocations (started target context A w) ! k = invocations w ! k"
  by (simp add: started_def nth_append)

lemma step_started: "step w (started target context A w)"
proof -
  have e: "extends w (started target context A w)"
    by (simp add: extends_def promiseOf_def started_old)
  have c: "consistent (started target context A w)" if "consistent w"
    unfolding consistent_def
  proof
    fix k
    from that have s: "settlement k (calls w) =
        (if k < length (invocations w) then promiseOf w k else Pending)"
      by (simp add: consistent_def)
    show "settlement k (calls (started target context A w)) =
        (if k < length (invocations (started target context A w))
         then promiseOf (started target context A w) k else Pending)"
    proof (cases "k < length (invocations w)")
      case True
      with s show ?thesis by (simp add: settlement_append promiseOf_def started_old)
    next
      case False
      with s show ?thesis
        by (cases "k = length (invocations w)") (simp_all add: settlement_append)
    qed
  qed
  from e c show ?thesis by (simp add: step_def)
qed

section \<open>Every application is a step\<close>

lemma soundD: "sound ap \<Longrightarrow> ap f this args w = Some (out, w') \<Longrightarrow> step w w'"
  by (auto simp: sound_def)

lemma execute_step:
  assumes "sound ap" and "execute ap fn args context w = Some (out, w')"
  shows "step w w'"
proof (cases "isFunction fn")
  case True
  let ?th = "if truthy context then Some context else None"
  let ?w1 = "w\<lparr>calls := calls w @ [ExecuteApply fn ?th args]\<rparr>"
  from True assms(2) have "ap fn ?th args ?w1 = Some (out, w')"
    by (simp add: execute_def)
  with assms(1) have "step ?w1 w'" by (rule soundD)
  with step_log [of w fn ?th args] show ?thesis by (rule step_trans)
next
  case False
  with assms(2) show ?thesis by (simp add: execute_def step_refl)
qed

lemma executeSuccess_step:
  assumes "sound ap" and "executeSuccess ap k R w = Some (out, w')"
  shows "step w w'"
proof -
  from assms(2) obtain r w1 where
    e: "execute ap (userSuccess (invocations w ! k)) R Undefined w = Some (r, w1)"
    and w': "w' = w1 \<or> w' = settle k (resolve R) (Resolve k R) w1"
    by (auto simp: executeSuccess_def split: option.splits prod.splits outcome.splits)
  from assms(1) e have "step w w1" by (rule execute_step)
  with w' step_resolve [of w1 k R] show ?thesis by (auto intro: step_trans)
qed

lemma executeFailure_step:
  assumes "sound ap" and "executeFailure ap k R w = Some (out, w')"
  shows "step w w'"
proof -
  from assms(2) obtain r w1 where
    e: "execute ap (userFailure (invocations w ! k)) R Undefined w = Some (r, w1)"
    and w': "w' = w1 \<or> w' = settle k (reject (Args R)) (Reject k (Args R)) w1"
    by (auto simp: executeFailure_def split: option.splits prod.splits outcome.splits)
  from assms(1) e have "step w w1" by (rule execute_step)
  with w' step_reject [of w1 k "Args R"] show ?thesis by (auto intro: step_trans)
qed

lemma dispatch_step:
  assumes "sound ap" and "dispatch ap k d R w = Some (out, w')"
  shows "step w w'"
proof (cases "k < length (invocations w)")
  case False
  with assms(2) show ?thesis by (simp add: dispatch_def step_refl)
next
  case True
  let ?w1 = "w\<lparr>outcomeRedirector :=
      (if truthy (outcomeRedirector w) then outcomeRedirector w else d)\<rparr>"
  from True assms(2) obtain r w2 where
    e: "execute ap (outcomeRedirector ?w1) R Undefined ?w1 = Some (r, w2)"
    and w': "w' = w2 \<or> executeSuccess ap k R w2 = Some (out, w')
        \<or> executeFailure ap k R w2 = Some (out, w')"
    by (auto simp: dispatch_def Let_def split: option.splits prod.splits outcome.splits
        if_splits)
  from assms(1) e have "step ?w1 w2" by (rule execute_step)
  with step_redirector [of w d] have s: "step w w2" by (rule step_trans)
  from w' show ?thesis
  proof (elim disjE)
    assume "w' = w2"
    with s show ?thesis by simp
  next
    assume "executeSuccess ap k R w2 = Some (out, w')"
    with assms(1) have "step w2 w'" by (rule executeSuccess_step)
    with s show ?thesis by (rule step_trans)
  next
    assume "executeFailure ap k R w2 = Some (out, w')"
    with assms(1) have "step w2 w'" by (rule executeFailure_step)
    with s show ?thesis by (rule step_trans)
  qed
qed

lemma adapted_cases:
  assumes "adapted ap target context A w = Some (out, w')"
  obtains r w3 where
    "ap target (Some context) (injectedArgs A w) (started target context A w) = Some (r, w3)"
    "out = ReturnedPromise (length (invocations w))"
    "w' = (case r of
             Threw e \<Rightarrow> settle (length (invocations w)) (reject (Thrown e))
                         (Reject (length (invocations w)) (Thrown e)) w3
           | _ \<Rightarrow> w3)"
  using assms
  by (auto simp: adapted_def Let_def split: option.splits prod.splits outcome.splits)

lemma adapted_step:
  assumes "sound ap" and "adapted ap target context A w = Some (out, w')"
  shows "step w w'"
proof -
  from assms(2) obtain r w3 where
    a: "ap target (Some context) (injectedArgs A w) (started target context A w) = Some (r, w3)"
    and w': "w' = (case r of
             Threw e \<Rightarrow> settle (length (invocations w)) (reject (Thrown e))
                         (Reject (length (invocations w)) (Thrown e)) w3
           | _ \<Rightarrow> w3)"
    by (rule adapted_cases)
  from assms(1) a have "step (started target context A w) w3" by (rule soundD)
  with step_started have s: "step w w3" by (rule step_trans)
  show ?thesis
  proof (cases r)
    case (Threw e)
    with w' s step_reject [of w3 "length (invocations w)" "Thrown e"] show ?thesis
      by (auto intro: step_trans)
  qed (use w' s in auto)
qed

lemma run_step:
  assumes "sound ap"
  shows "run ap ss w = Some (out, w') \<Longrightarrow> step w w'"
proof (induction ss arbitrary: w)
  case Nil
  then show ?case by (simp add: step_refl)
next
  case (Cons s ss)
  show ?case
  proof (cases s)
    case (Call f args)
    show ?thesis
    proof (cases "isFunction f")
      case False
      with Cons.prems Call show ?thesis by (simp add: step_refl)
    next
      case True
      with Cons.prems Call obtain r w1 where a: "ap f (Some Undefined) args w = Some (r, w1)"
        and rest: "w' = w1 \<or> run ap ss w1 = Some (out, w')"
        by (auto split: option.splits prod.splits outcome.splits)
      from assms a have s: "step w w1" by (rule soundD)
      from rest Cons.IH [of w1] have "w' = w1 \<or> step w1 w'" by blast
      with s show ?thesis by (auto intro: step_trans)
    qed
  next
    case (TryCall f args)
    show ?thesis
    proof (cases "isFunction f")
      case False
      with Cons.prems TryCall have "run ap ss w = Some (out, w')" by simp
      then show ?thesis by (rule Cons.IH)
    next
      case True
      with Cons.prems TryCall obtain r w1 where a: "ap f (Some Undefined) args w = Some (r, w1)"
        and rest: "run ap ss w1 = Some (out, w')"
        by (auto split: option.splits prod.splits)
      from assms a have "step w w1" by (rule soundD)
      moreover from rest have "step w1 w'" by (rule Cons.IH)
      ultimately show ?thesis by (rule step_trans)
    qed
  next
    case (Return v)
    with Cons.prems show ?thesis by (simp add: step_refl)
  next
    case (Throw e)
    with Cons.prems show ?thesis by (simp add: step_refl)
  qed
qed

lemma applyFn_sound: "sound (applyFn E n)"
proof (induction n)
  case 0
  show ?case by (simp add: sound_def)
next
  case (Suc n)
  show ?case
    unfolding sound_def
  proof (intro allI impI)
    fix f this args w out w'
    assume a: "applyFn E (Suc n) f this args w = Some (out, w')"
    show "step w w'"
    proof (cases f)
      case (OnSuccessPromiseified k)
      with a have "dispatch (applyFn E n) k TrueRedirector args w = Some (out, w')"
        by (simp add: onSuccessPromiseified_def)
      with Suc show ?thesis by (rule dispatch_step)
    next
      case (OnErrorPromiseified k)
      with a have "dispatch (applyFn E n) k FalseRedirector args w = Some (out, w')"
        by (simp add: onErrorPromiseified_def)
      with Suc show ?thesis by (rule dispatch_step)
    next
      case (Adapted t c)
      with a have "adapted (applyFn E n) t c args w = Some (out, w')" by simp
      with Suc show ?thesis by (rule adapted_step)
    qed (insert a Suc, auto simp: step_refl intro: run_step)
  qed
qed

lemma applyFn_step: "applyFn E n f this args w = Some (out, w') \<Longrightarrow> step w w'"
  using applyFn_sound by (rule soundD)

section \<open>The default redirector\<close>

text \<open>
  Claim C2 (evaluation of the code where it departs from the claim). The original is
  \<open>function (flag, ok, err) { flag ? ok('ok') : err('bad') }\<close>, adapted with an options
  record that has no \<open>outcomeRedirector\<close>. The first call makes it fire the injected success
  handler, which stores \<open>trueRedirector\<close> in the shared options record; the second call
  makes it fire the injected error handler, and the promise of the second call is
  fulfilled, not rejected.
\<close>

theorem default_redirector_is_sticky:
  "(case applyFn flagEnv 4 (Adapted (Fn 0) Null) None [Bool True] emptyWorld of
      None \<Rightarrow> False
    | Some (out1, w1) \<Rightarrow>
        out1 = ReturnedPromise 0
        \<and> promiseOf w1 0 = Fulfilled [Str ''ok'']
        \<and> outcomeRedirector w1 = TrueRedirector
        \<and> (case applyFn flagEnv 4 (Adapted (Fn 0) Null) None [Bool False] w1 of
              None \<Rightarrow> False
            | Some (out2, w2) \<Rightarrow>
                out2 = ReturnedPromise 1
                \<and> calls w2 ! 3 =
                    TargetApply 1 (Fn 0) Null
                      [Bool False, OnSuccessPromiseified 1, OnErrorPromiseified 1]
                \<and> promiseOf w2 1 = Fulfilled [Str ''bad'']))"
  by (simp add: eval_nat_numeral adapted_def started_def injectedArgs_def emptyWorld_def
      flagEnv_def separateArguments_def arg_def isFunction_def onSuccessPromiseified_def
      onErrorPromiseified_def dispatch_def execute_def executeSuccess_def executeFailure_def
      settle_def promiseOf_def Let_def)

section \<open>Application of the original\<close>






section \<open>An original that throws\<close>

text \<open>
  Claim C4, as stated, at \<open>function (ok, err) { ok(1); throw 'boom' }\<close> called with no
  arguments: the original throws, and the promise is fulfilled with \<open>[1]\<close>, not rejected
  with the error.
\<close>

theorem throw_after_success_counterexample:
  "outcomeOf (applyFn successThenThrowEnv 3 (Fn 0) (Some Null) (injectedArgs [] emptyWorld)
       (started (Fn 0) Null [] emptyWorld)) = Some (Threw (Value (Str ''boom'')))
   \<and> outcomeOf (applyFn successThenThrowEnv 4 (Adapted (Fn 0) Null) None [] emptyWorld)
       = Some (ReturnedPromise 0)
   \<and> promiseIn (applyFn successThenThrowEnv 4 (Adapted (Fn 0) Null) None [] emptyWorld) 0
       = Some (Fulfilled [Num 1])
   \<and> promiseIn (applyFn successThenThrowEnv 4 (Adapted (Fn 0) Null) None [] emptyWorld) 0
       \<noteq> Some (Rejected (Thrown (Value (Str ''boom''))))"
  by (simp add: eval_nat_numeral adapted_def started_def injectedArgs_def emptyWorld_def
      successThenThrowEnv_def separateArguments_def arg_def isFunction_def
      onSuccessPromiseified_def onErrorPromiseified_def dispatch_def execute_def
      executeSuccess_def executeFailure_def settle_def promiseOf_def outcomeOf_def
      worldOf_def promiseIn_def Let_def)

text \<open>
  Claim C4, amended. When the application of the original throws \<open>e\<close>, the adapted call
  returns its promise and throws nothing, and the promise is what \<open>reject\<close> with the thrown
  error makes of its state at the throw: rejected with \<open>e\<close> when no injected handler had
  settled it, unchanged otherwise.
\<close>

theorem throw_rejects_pending:
  assumes "applyFn E n target (Some context) (injectedArgs A w) (started target context A w)
             = Some (Threw e, w')"
  shows "outcomeOf (applyFn E (Suc n) (Adapted target context) this A w) =
           Some (ReturnedPromise (length (invocations w)))
   \<and> promiseIn (applyFn E (Suc n) (Adapted target context) this A w) (length (invocations w)) =
       Some (reject (Thrown e) (promiseOf w' (length (invocations w))))
   \<and> (promiseOf w' (length (invocations w)) = Pending \<longrightarrow>
       promiseIn (applyFn E (Suc n) (Adapted target context) this A w)
         (length (invocations w)) = Some (Rejected (Thrown e)))"
proof -
  from assms have "step (started target context A w) w'" by (rule applyFn_step)
  then have "length (invocations (started target context A w)) \<le> length (invocations w')"
    by (simp add: step_def extends_def)
  then have "length (invocations w) < length (invocations w')" by simp
  then show ?thesis
    using assms
    by (simp add: adapted_def outcomeOf_def worldOf_def promiseIn_def promiseOf_settle
        Let_def)
qed

theorem throw_rejects_pending_witness:
  "applyFn throwEnv 1 (Fn 0) (Some Null) (injectedArgs [Num 7] emptyWorld)
       (started (Fn 0) Null [Num 7] emptyWorld)
     = Some (Threw (Value (Str ''boom'')), started (Fn 0) Null [Num 7] emptyWorld)
   \<and> promiseOf (started (Fn 0) Null [Num 7] emptyWorld) (length (invocations emptyWorld)) = Pending
   \<and> outcomeOf (applyFn throwEnv (Suc 1) (Adapted (Fn 0) Null) None [Num 7] emptyWorld) =
       Some (ReturnedPromise (length (invocations emptyWorld)))
   \<and> promiseIn (applyFn throwEnv (Suc 1) (Adapted (Fn 0) Null) None [Num 7] emptyWorld)
       (length (invocations emptyWorld)) = Some (Rejected (Thrown (Value (Str ''boom''))))"
proof -
  have r: "applyFn throwEnv 1 (Fn 0) (Some Null) (injectedArgs [Num 7] emptyWorld)
       (started (Fn 0) Null [Num 7] emptyWorld)
     = Some (Threw (Value (Str ''boom'')), started (Fn 0) Null [Num 7] emptyWorld)"
    by (simp add: throwEnv_def)
  have p: "promiseOf (started (Fn 0) Null [Num 7] emptyWorld) (length (invocations emptyWorld))
      = Pending"
    by simp
  from throw_rejects_pending [OF r, of None] r p show ?thesis by simp
qed

section \<open>Single settlement\<close>



lemma step_facts:
  assumes "step w w'"
  shows "length (invocations w) \<le> length (invocations w')"
    and "\<forall>k<length (invocations w). promiseOf w k \<noteq> Pending \<longrightarrow> promiseOf w' k = promiseOf w k"
    and "\<exists>ext. calls w' = calls w @ ext"
    and "consistent w \<longrightarrow> (\<forall>k<length (invocations w'). promiseOf w' k = settlement k (calls w'))"
  using assms by (auto simp: step_def extends_def consistent_def)




section \<open>The error-first preset\<close>

lemma redirector_same: "outcomeRedirector w = v \<Longrightarrow> w\<lparr>outcomeRedirector := v\<rparr> = w"
  by auto

lemma applyFn_handler:
  "applyFn E (Suc m) (OnSuccessPromiseified k) this R w =
     dispatch (applyFn E m) k TrueRedirector R w"
  "applyFn E (Suc m) (OnErrorPromiseified k) this R w =
     dispatch (applyFn E m) k FalseRedirector R w"
  by (simp_all add: onSuccessPromiseified_def onErrorPromiseified_def)

lemma applyFn_NodeStyleRedirector:
  "applyFn E (Suc m) NodeStyleRedirector this R w =
     Some (Returned (Bool (\<not> truthy (arg R 0))), w)"
  by simp

lemma dispatch_nodeStyle:
  assumes "outcomeRedirector w = NodeStyleRedirector" and "k < length (invocations w)"
    and ap: "\<And>v. ap NodeStyleRedirector None R v = Some (Returned (Bool (\<not> truthy (arg R 0))), v)"
  shows "dispatch ap k d R w =
     (case execute ap
             (if truthy (arg R 0) then userFailure (invocations w ! k)
              else userSuccess (invocations w ! k))
             R Undefined (w\<lparr>calls := calls w @ [ExecuteApply NodeStyleRedirector None R]\<rparr>) of
        None \<Rightarrow> None
      | Some (Threw e, w1) \<Rightarrow> Some (Threw e, w1)
      | Some (r, w1) \<Rightarrow>
          Some (Returned Undefined,
                if truthy (arg R 0) then settle k (reject (Args R)) (Reject k (Args R)) w1
                else settle k (resolve R) (Resolve k R) w1))"
proof -
  let ?w1 = "w\<lparr>calls := calls w @ [ExecuteApply NodeStyleRedirector None R]\<rparr>"
  have e: "execute ap NodeStyleRedirector R Undefined w =
      Some (Returned (Bool (\<not> truthy (arg R 0))), ?w1)"
    by (simp add: execute_def isFunction_def ap)
  have d: "dispatch ap k d R w =
      (if truthy (arg R 0) then executeFailure ap k R ?w1 else executeSuccess ap k R ?w1)"
    using assms(1,2) by (simp add: dispatch_def redirector_same e)
  show ?thesis
  proof (cases "truthy (arg R 0)")
    case True
    then show ?thesis
      by (simp add: d executeFailure_def
          split: option.split prod.split outcome.split)
  next
    case False
    then show ?thesis
      by (simp add: d executeSuccess_def
          split: option.split prod.split outcome.split)
  qed
qed

lemma nodeStyle_handler:
  assumes "outcomeRedirector w = NodeStyleRedirector" and "k < length (invocations w)"
    and "g = OnSuccessPromiseified k \<or> g = OnErrorPromiseified k"
  shows "applyFn E (Suc (Suc n)) g this R w =
     (case execute (applyFn E (Suc n))
             (if truthy (arg R 0) then userFailure (invocations w ! k)
              else userSuccess (invocations w ! k))
             R Undefined (w\<lparr>calls := calls w @ [ExecuteApply NodeStyleRedirector None R]\<rparr>) of
        None \<Rightarrow> None
      | Some (Threw e, w1) \<Rightarrow> Some (Threw e, w1)
      | Some (r, w1) \<Rightarrow>
          Some (Returned Undefined,
                if truthy (arg R 0) then settle k (reject (Args R)) (Reject k (Args R)) w1
                else settle k (resolve R) (Resolve k R) w1))"
proof -
  have "dispatch (applyFn E (Suc n)) k d R w =
     (case execute (applyFn E (Suc n))
             (if truthy (arg R 0) then userFailure (invocations w ! k)
              else userSuccess (invocations w ! k))
             R Undefined (w\<lparr>calls := calls w @ [ExecuteApply NodeStyleRedirector None R]\<rparr>) of
        None \<Rightarrow> None
      | Some (Threw e, w1) \<Rightarrow> Some (Threw e, w1)
      | Some (r, w1) \<Rightarrow>
          Some (Returned Undefined,
                if truthy (arg R 0) then settle k (reject (Args R)) (Reject k (Args R)) w1
                else settle k (resolve R) (Resolve k R) w1))" for d
    using assms(1,2) by (rule dispatch_nodeStyle) (rule applyFn_NodeStyleRedirector)
  with assms(3) show ?thesis
    by (auto simp only: applyFn_handler)
qed

text \<open>
  Claim C8, as stated, at \<open>function (cb) { cb('boom'); cb(null, 1) }\<close> adapted with
  \<open>nodeStyle\<close> and called with no arguments: the second call of the injected handler has a
  falsy first argument and takes the success path (\<open>resolve\<close> is called with \<open>[null, 1]\<close>),
  but the promise is not fulfilled: it stays rejected with \<open>['boom']\<close>.
\<close>

theorem falsy_after_truthy_counterexample:
  "returned (fst (nodeStyle [] (Fn 0) None exampleHeap emptyWorld)) = Inr (Adapted (Fn 0) Null)
   \<and> promiseIn (applyFn errorThenResultEnv 4 (Adapted (Fn 0) Null) None []
        (snd (nodeStyle [] (Fn 0) None exampleHeap emptyWorld))) 0
     = Some (Rejected (Args [Str ''boom'']))
   \<and> map_option calls (worldOf (applyFn errorThenResultEnv 4 (Adapted (Fn 0) Null) None []
        (snd (nodeStyle [] (Fn 0) None exampleHeap emptyWorld))))
     = Some [TargetApply 0 (Fn 0) Null [OnSuccessPromiseified 0, OnErrorPromiseified 0],
             ExecuteApply NodeStyleRedirector None [Str ''boom''],
             Reject 0 (Args [Str ''boom'']),
             ExecuteApply NodeStyleRedirector None [Null, Num 1],
             Resolve 0 [Null, Num 1]]"
  by (simp add: eval_nat_numeral nodeStyle_def buildWithOutcomeRedirector_def Promiseify_def
      doPromiseify_def promiseifyFunction_def returned_def adapted_def started_def
      injectedArgs_def emptyWorld_def errorThenResultEnv_def separateArguments_def arg_def
      isFunction_def onSuccessPromiseified_def onErrorPromiseified_def dispatch_def
      execute_def executeSuccess_def executeFailure_def settle_def promiseOf_def
      outcomeOf_def worldOf_def promiseIn_def Let_def)

lemma resolve_not_Pending [simp]: "resolve R p \<noteq> Pending"
  by (cases p) auto

lemma reject_not_Pending [simp]: "reject e p \<noteq> Pending"
  by (cases p) auto

text \<open>
  Claim C8, amended. \<open>nodeStyle\<close> returns what \<open>Promiseify\<close> returns, for a callable target
  its adaptation, and leaves \<open>error => !error\<close> in the options record, where it stays
  whatever code runs. With it in force, whichever injected handler of an invocation is
  called with result arguments \<open>R\<close>, the path depends on the first element of \<open>R\<close> alone:
  when it is falsy or absent the user's success handler is called with \<open>R\<close> and then
  \<open>resolve\<close>, when it is truthy the user's failure handler and then \<open>reject\<close>. What the user
  handler throws goes on to the caller of the injected handler, and then the promise is
  not settled; a call that returns leaves the promise settled. With no user handler on
  that path, the promise is what \<open>resolve\<close> or \<open>reject\<close> with \<open>R\<close> makes of it: fulfilled or
  rejected with \<open>R\<close> when it was pending, unchanged when it was settled.
\<close>

theorem nodeStyle_outcome:
  "(isFunction target \<longrightarrow>
      nodeStyle opn target opts h w0 =
        (Inr (Adapted target Null, h), w0\<lparr>outcomeRedirector := NodeStyleRedirector\<rparr>))
   \<and> nodeStyle opn target opts h w0 =
        (Promiseify opn target opts h, w0\<lparr>outcomeRedirector := NodeStyleRedirector\<rparr>)
   \<and> (outcomeRedirector w = NodeStyleRedirector \<and> applyFn E n f this args w = Some (out, w') \<longrightarrow>
        outcomeRedirector w' = NodeStyleRedirector)
   \<and> (outcomeRedirector w = NodeStyleRedirector \<and> k < length (invocations w)
        \<and> (g = OnSuccessPromiseified k \<or> g = OnErrorPromiseified k) \<longrightarrow>
        applyFn E (Suc (Suc m)) g this R w =
          (case execute (applyFn E (Suc m))
                  (if truthy (arg R 0) then userFailure (invocations w ! k)
                   else userSuccess (invocations w ! k))
                  R Undefined
                  (w\<lparr>calls := calls w @ [ExecuteApply NodeStyleRedirector None R]\<rparr>) of
             None \<Rightarrow> None
           | Some (Threw e, w1) \<Rightarrow> Some (Threw e, w1)
           | Some (r, w1) \<Rightarrow>
               Some (Returned Undefined,
                     if truthy (arg R 0) then settle k (reject (Args R)) (Reject k (Args R)) w1
                     else settle k (resolve R) (Resolve k R) w1))
        \<and> (\<forall>v w2. applyFn E (Suc (Suc m)) g this R w = Some (Returned v, w2) \<longrightarrow>
              promiseOf w2 k \<noteq> Pending)
        \<and> (\<not> isFunction (if truthy (arg R 0) then userFailure (invocations w ! k)
                           else userSuccess (invocations w ! k)) \<longrightarrow>
              outcomeOf (applyFn E (Suc (Suc m)) g this R w) = Some (Returned Undefined)
              \<and> promiseIn (applyFn E (Suc (Suc m)) g this R w) k =
                  Some (if truthy (arg R 0) then reject (Args R) (promiseOf w k)
                        else resolve R (promiseOf w k))
              \<and> (promiseOf w k = Pending \<longrightarrow>
                   promiseIn (applyFn E (Suc (Suc m)) g this R w) k =
                     Some (if truthy (arg R 0) then Rejected (Args R) else Fulfilled R))))"
proof (intro conjI impI)
  assume "isFunction target"
  then show "nodeStyle opn target opts h w0 =
      (Inr (Adapted target Null, h), w0\<lparr>outcomeRedirector := NodeStyleRedirector\<rparr>)"
    by (simp add: nodeStyle_def buildWithOutcomeRedirector_def Promiseify_def doPromiseify_def
        promiseifyFunction_def)
next
  show "nodeStyle opn target opts h w0 =
      (Promiseify opn target opts h, w0\<lparr>outcomeRedirector := NodeStyleRedirector\<rparr>)"
    by (simp add: nodeStyle_def buildWithOutcomeRedirector_def)
next
  assume a: "outcomeRedirector w = NodeStyleRedirector \<and> applyFn E n f this args w = Some (out, w')"
  then have "step w w'" by (auto intro: applyFn_step)
  with a show "outcomeRedirector w' = NodeStyleRedirector"
    by (auto simp: step_def extends_def)
next
  assume a: "outcomeRedirector w = NodeStyleRedirector \<and> k < length (invocations w)
        \<and> (g = OnSuccessPromiseified k \<or> g = OnErrorPromiseified k)"
  let ?hnd = "if truthy (arg R 0) then userFailure (invocations w ! k)
              else userSuccess (invocations w ! k)"
  let ?w1 = "w\<lparr>calls := calls w @ [ExecuteApply NodeStyleRedirector None R]\<rparr>"
  let ?fin = "\<lambda>w1. if truthy (arg R 0) then settle k (reject (Args R)) (Reject k (Args R)) w1
                   else settle k (resolve R) (Resolve k R) w1"
  from a have eq: "applyFn E (Suc (Suc m)) g this R w =
      (case execute (applyFn E (Suc m)) ?hnd R Undefined ?w1 of
         None \<Rightarrow> None
       | Some (Threw e, w1) \<Rightarrow> Some (Threw e, w1)
       | Some (r, w1) \<Rightarrow> Some (Returned Undefined, ?fin w1))"
    by (intro nodeStyle_handler) auto
  show "applyFn E (Suc (Suc m)) g this R w =
      (case execute (applyFn E (Suc m)) ?hnd R Undefined ?w1 of
         None \<Rightarrow> None
       | Some (Threw e, w1) \<Rightarrow> Some (Threw e, w1)
       | Some (r, w1) \<Rightarrow> Some (Returned Undefined, ?fin w1))"
    by (rule eq)
  show "\<forall>v w2. applyFn E (Suc (Suc m)) g this R w = Some (Returned v, w2) \<longrightarrow>
      promiseOf w2 k \<noteq> Pending"
  proof (intro allI impI)
    fix v w2
    assume r: "applyFn E (Suc (Suc m)) g this R w = Some (Returned v, w2)"
    with eq obtain r1 w1 where
      e: "execute (applyFn E (Suc m)) ?hnd R Undefined ?w1 = Some (r1, w1)"
      and w2: "w2 = ?fin w1"
      by (auto split: option.splits prod.splits outcome.splits)
    from applyFn_sound e have "step ?w1 w1" by (rule execute_step)
    from step_facts(1) [OF this] a have "k < length (invocations w1)" by simp
    with w2 show "promiseOf w2 k \<noteq> Pending" by (simp add: promiseOf_settle)
  qed
  assume nf: "\<not> isFunction ?hnd"
  then have e: "execute (applyFn E (Suc m)) ?hnd R Undefined ?w1 = Some (Returned Null, ?w1)"
    by (simp add: execute_def)
  have res: "applyFn E (Suc (Suc m)) g this R w = Some (Returned Undefined, ?fin ?w1)"
    by (simp only: eq e) simp
  from a have p: "promiseOf (?fin ?w1) k =
      (if truthy (arg R 0) then reject (Args R) (promiseOf w k) else resolve R (promiseOf w k))"
    by (simp add: promiseOf_settle) (simp add: promiseOf_def)
  show "outcomeOf (applyFn E (Suc (Suc m)) g this R w) = Some (Returned Undefined)"
    by (simp only: res) (simp add: outcomeOf_def)
  show pi: "promiseIn (applyFn E (Suc (Suc m)) g this R w) k =
      Some (if truthy (arg R 0) then reject (Args R) (promiseOf w k)
            else resolve R (promiseOf w k))"
    by (simp only: res) (simp add: promiseIn_def worldOf_def p)
  assume "promiseOf w k = Pending"
  with pi show "promiseIn (applyFn E (Suc (Suc m)) g this R w) k =
      Some (if truthy (arg R 0) then Rejected (Args R) else Fulfilled R)"
    by simp
qed

theorem nodeStyle_outcome_witness:
  "nodeStyle [] (Fn 0) None exampleHeap emptyWorld =
     (Inr (Adapted (Fn 0) Null, exampleHeap), emptyWorld\<lparr>outcomeRedirector := NodeStyleRedirector\<rparr>)
   \<and> promiseIn (applyFn quietEnv (Suc (Suc 0)) (OnSuccessPromiseified 0) None [Str ''boom'']
        (started (Fn 0) Null [] (snd (nodeStyle [] (Fn 0) None exampleHeap emptyWorld)))) 0
      = Some (Rejected (Args [Str ''boom'']))
   \<and> promiseIn (applyFn quietEnv (Suc (Suc 0)) (OnErrorPromiseified 0) None [Null, Num 1]
        (started (Fn 0) Null [] (snd (nodeStyle [] (Fn 0) None exampleHeap emptyWorld)))) 0
      = Some (Fulfilled [Null, Num 1])
   \<and> map_option outcomeRedirector
        (worldOf (applyFn quietEnv (Suc (Suc 0)) (OnErrorPromiseified 0) None [Null, Num 1]
          (started (Fn 0) Null [] (snd (nodeStyle [] (Fn 0) None exampleHeap emptyWorld)))))
      = Some NodeStyleRedirector
   \<and> outcomeOf (applyFn throwingHandlerEnv (Suc (Suc 0)) (OnSuccessPromiseified 0) None
        [Null, Num 1]
        (started (Fn 0) Null [Fn 7] (snd (nodeStyle [] (Fn 0) None exampleHeap emptyWorld))))
      = Some (Threw (Value (Str ''late'')))
   \<and> promiseIn (applyFn throwingHandlerEnv (Suc (Suc 0)) (OnSuccessPromiseified 0) None
        [Null, Num 1]
        (started (Fn 0) Null [Fn 7] (snd (nodeStyle [] (Fn 0) None exampleHeap emptyWorld)))) 0
      = Some Pending"
proof -
  let ?wN = "snd (nodeStyle [] (Fn 0) None exampleHeap emptyWorld)"
  let ?wA = "started (Fn 0) Null [] ?wN"
  let ?wB = "started (Fn 0) Null [Fn 7] ?wN"
  have f: "isFunction (Fn 0)" by (simp add: isFunction_def)
  have n: "outcomeRedirector ?wN = NodeStyleRedirector" "length (invocations ?wN) = 0"
    by (simp_all add: nodeStyle_def buildWithOutcomeRedirector_def emptyWorld_def)
  have A: "outcomeRedirector ?wA = NodeStyleRedirector" "0 < length (invocations ?wA)"
    "promiseOf ?wA 0 = Pending"
    "userSuccess (invocations ?wA ! 0) = Undefined" "userFailure (invocations ?wA ! 0) = Undefined"
    using started_frame [of "Fn 0" Null "[]" ?wN] n
    by (simp_all add: separateArguments_def arg_def)
  have B: "outcomeRedirector ?wB = NodeStyleRedirector" "0 < length (invocations ?wB)"
    "promiseOf ?wB 0 = Pending"
    "userSuccess (invocations ?wB ! 0) = Fn 7"
    using started_frame [of "Fn 0" Null "[Fn 7]" ?wN] n
    by (simp_all add: separateArguments_def arg_def isFunction_def)
  have nfA: "\<not> isFunction (if truthy (arg R 0) then userFailure (invocations ?wA ! 0)
                           else userSuccess (invocations ?wA ! 0))" for R
    by (simp add: A(4,5) isFunction_def)
  have tr: "\<not> truthy (arg [Null, Num 1] 0)" "truthy (arg [Str ''boom''] 0)"
    by (simp_all add: arg_def)
  note t0 = nodeStyle_outcome [of "Fn 0" "[]" None exampleHeap emptyWorld ?wA quietEnv
      "Suc (Suc 0)" "OnErrorPromiseified 0" None "[Null, Num 1]" "Returned Undefined" ?wA 0
      "OnErrorPromiseified 0" 0 "[Null, Num 1]"]
  from t0 A(1,2) nfA have "outcomeOf (applyFn quietEnv (Suc (Suc 0)) (OnErrorPromiseified 0) None
      [Null, Num 1] ?wA) = Some (Returned Undefined)"
    by blast
  then obtain out w' where r:
    "applyFn quietEnv (Suc (Suc 0)) (OnErrorPromiseified 0) None [Null, Num 1] ?wA = Some (out, w')"
    by (auto simp: outcomeOf_def simp del: applyFn.simps)
  note t1 = nodeStyle_outcome [of "Fn 0" "[]" None exampleHeap emptyWorld ?wA quietEnv
      "Suc (Suc 0)" "OnErrorPromiseified 0" None "[Null, Num 1]" out w' 0
      "OnSuccessPromiseified 0" 0 "[Str ''boom'']"]
  note t2 = nodeStyle_outcome [of "Fn 0" "[]" None exampleHeap emptyWorld ?wA quietEnv
      "Suc (Suc 0)" "OnErrorPromiseified 0" None "[Null, Num 1]" out w' 0
      "OnErrorPromiseified 0" 0 "[Null, Num 1]"]
  note t3 = nodeStyle_outcome [of "Fn 0" "[]" None exampleHeap emptyWorld ?wB throwingHandlerEnv
      "Suc (Suc 0)" "OnErrorPromiseified 0" None "[Null, Num 1]" out w' 0
      "OnSuccessPromiseified 0" 0 "[Null, Num 1]"]
  from t1 f have c1: "nodeStyle [] (Fn 0) None exampleHeap emptyWorld =
     (Inr (Adapted (Fn 0) Null, exampleHeap), emptyWorld\<lparr>outcomeRedirector := NodeStyleRedirector\<rparr>)"
    by blast
  from t1 A(1,2,3) nfA have "promiseIn (applyFn quietEnv (Suc (Suc 0)) (OnSuccessPromiseified 0) None
      [Str ''boom''] ?wA) 0 =
      Some (if truthy (arg [Str ''boom''] 0) then Rejected (Args [Str ''boom''])
            else Fulfilled [Str ''boom''])"
    by blast
  then have c2: "promiseIn (applyFn quietEnv (Suc (Suc 0)) (OnSuccessPromiseified 0) None
      [Str ''boom''] ?wA) 0 = Some (Rejected (Args [Str ''boom'']))"
    by (simp only: tr if_True)
  from t2 A(1,2,3) nfA have "promiseIn (applyFn quietEnv (Suc (Suc 0)) (OnErrorPromiseified 0) None
      [Null, Num 1] ?wA) 0 =
      Some (if truthy (arg [Null, Num 1] 0) then Rejected (Args [Null, Num 1])
            else Fulfilled [Null, Num 1])"
    by blast
  then have c3: "promiseIn (applyFn quietEnv (Suc (Suc 0)) (OnErrorPromiseified 0) None
      [Null, Num 1] ?wA) 0 = Some (Fulfilled [Null, Num 1])"
    by (simp only: tr if_False)
  from t2 A(1) r have "outcomeRedirector w' = NodeStyleRedirector" by blast
  with r have c4: "map_option outcomeRedirector
      (worldOf (applyFn quietEnv (Suc (Suc 0)) (OnErrorPromiseified 0) None [Null, Num 1] ?wA))
      = Some NodeStyleRedirector"
    by (simp add: worldOf_def del: applyFn.simps)
  from t3 B(1,2) have eq: "applyFn throwingHandlerEnv (Suc (Suc 0)) (OnSuccessPromiseified 0) None
        [Null, Num 1] ?wB =
      (case execute (applyFn throwingHandlerEnv (Suc 0))
              (if truthy (arg [Null, Num 1] 0) then userFailure (invocations ?wB ! 0)
               else userSuccess (invocations ?wB ! 0))
              [Null, Num 1] Undefined
              (?wB\<lparr>calls := calls ?wB @
                 [ExecuteApply NodeStyleRedirector None [Null, Num 1]]\<rparr>) of
         None \<Rightarrow> None
       | Some (Threw e, w1) \<Rightarrow> Some (Threw e, w1)
       | Some (r, w1) \<Rightarrow>
           Some (Returned Undefined,
                 if truthy (arg [Null, Num 1] 0)
                 then settle 0 (reject (Args [Null, Num 1])) (Reject 0 (Args [Null, Num 1])) w1
                 else settle 0 (resolve [Null, Num 1]) (Resolve 0 [Null, Num 1]) w1))"
    by blast
  have ex: "execute (applyFn throwingHandlerEnv (Suc 0))
              (if truthy (arg [Null, Num 1] 0) then userFailure (invocations ?wB ! 0)
               else userSuccess (invocations ?wB ! 0))
              [Null, Num 1] Undefined
              (?wB\<lparr>calls := calls ?wB @
                 [ExecuteApply NodeStyleRedirector None [Null, Num 1]]\<rparr>)
      = Some (Threw (Value (Str ''late'')),
          ?wB\<lparr>calls := calls ?wB @
                 [ExecuteApply NodeStyleRedirector None [Null, Num 1],
                  ExecuteApply (Fn 7) None [Null, Num 1]]\<rparr>)"
    by (simp add: B(4) arg_def execute_def isFunction_def throwingHandlerEnv_def
        del: started_frame)
  have c5: "outcomeOf (applyFn throwingHandlerEnv (Suc (Suc 0)) (OnSuccessPromiseified 0) None
        [Null, Num 1] ?wB) = Some (Threw (Value (Str ''late'')))"
    by (simp only: eq ex) (simp add: outcomeOf_def)
  have c6: "promiseIn (applyFn throwingHandlerEnv (Suc (Suc 0)) (OnSuccessPromiseified 0) None
        [Null, Num 1] ?wB) 0 = Some Pending"
    using B(3) by (simp only: eq ex) (simp add: promiseIn_def worldOf_def promiseOf_def)
  from c1 c2 c3 c4 c5 c6 show ?thesis by blast
qed

end
